theory Spec2Isabelle
  imports Main
begin

section \<open>Values, exceptions and wire formats\<close>

text \<open>
  A point in time is the number of microseconds since the epoch, the resolution of
  Python's \<open>datetime\<close>; a \<open>timedelta\<close> is a number of microseconds as well.
\<close>

type_synonym timestamp = int

text \<open>
  The exceptions the modelled code can raise. \<open>UnboundLocalError\<close> is Python's
  subclass of \<open>NameError\<close> for a local variable read before it is bound.
  \<open>TransportError\<close> stands for whatever \<open>requests\<close> raises (timeout, non-2xx status
  through \<open>raise_for_status\<close>), \<open>ParserError\<close> for a timestamp \<open>dateutil\<close> rejects,
  \<open>ReError\<close> for \<open>re.error\<close>.
\<close>

datatype exn =
    UnboundLocalError string
  | TypeError string
  | KeyError string
  | OverflowError
  | ParserError string
  | BaseException string
  | TransportError string
  | OSError string
  | ReError string

fun is_NameError :: "exn \<Rightarrow> bool" where
  "is_NameError (UnboundLocalError v) = True"
| "is_NameError e = False"

text \<open>
  The JSON objects of the two listing endpoints, with the keys the code reads. The key
  \<open>created_at\<close> of an assignee object is absent in the response; the correlation step
  adds it.
\<close>

record assignee_dict =
  login :: string
  created_at :: "timestamp option"

record pr_dict =
  number :: int
  html_url :: string
  title_key :: string
  user_login :: string
  assignees_key :: "assignee_dict list"

text \<open>
  A timeline event: \<open>event['event']\<close>, \<open>event['assignee']['login']\<close> and
  \<open>event['created_at']\<close>. Only the first key is present on every event.
\<close>

record event =
  event_kind :: string
  assignee_login :: "string option"
  event_created_at :: "string option"

section \<open>Domain model\<close>

text \<open>
  Modelled from the spec: the module \<open>github_domain\<close> (classes \<open>Assignee\<close> and
  \<open>PullRequest\<close>) is not among the sources. The attribute names are the ones the
  callers and tests use; the assignment timestamp is present only when a matching
  "assigned" event was found.
\<close>

record Assignee =
  username :: string
  assigned_on_timestamp :: "timestamp option"

record PullRequest =
  url :: string
  pr_number :: int
  author_username :: string
  title :: string
  assignees :: "Assignee list"

text \<open>Modelled from the spec: \<open>Assignee.from_github_response\<close>, absent from the sources.\<close>

definition assignee_from_github_response :: "assignee_dict \<Rightarrow> Assignee" where
  "assignee_from_github_response d =
     \<lparr>username = login d, assigned_on_timestamp = created_at d\<rparr>"

text \<open>Modelled from the spec: \<open>PullRequest.from_github_response\<close>, absent from the sources.\<close>

definition from_github_response :: "pr_dict \<Rightarrow> PullRequest" where
  "from_github_response d =
     \<lparr>url = html_url d, pr_number = number d, author_username = user_login d,
      title = title_key d,
      assignees = map assignee_from_github_response (assignees_key d)\<rparr>"

text \<open>
  Modelled from the spec: \<open>PullRequest.is_reviewer_assigned\<close>, true iff the assignee
  sequence is non-empty.
\<close>

definition is_reviewer_assigned :: "PullRequest \<Rightarrow> bool" where
  "is_reviewer_assigned p = (assignees p \<noteq> [])"

text \<open>
  Modelled from the spec: \<open>PullRequest.get_assignee\<close>, the first assignee whose
  username matches, else absent.
\<close>

definition get_assignee :: "PullRequest \<Rightarrow> string \<Rightarrow> Assignee option" where
  "get_assignee p u = find (\<lambda>a. username a = u) (assignees p)"

section \<open>The world outside the program\<close>

text \<open>
  The HTTP requests the program issues: the two paginated GET endpoints (organisation,
  repository, pull request number, page, page size) and the GraphQL POST queries and
  mutations with their variables.
\<close>

datatype request =
    GetPulls string string nat nat
  | GetTimeline string string int nat nat
  | PostCategories string string
  | PostRepository string string
  | PostDiscussions string string string
  | PostDeleteDiscussion string
  | PostCreateDiscussion string string string string

text \<open>
  The mutable state a run threads through: the module-level \<open>_TOKEN\<close>, the number
  of times the clock has been read, and the requests issued so far, oldest first.
\<close>

record world =
  token :: "string option"
  ticks :: nat
  trace :: "request list"

record category =
  category_id :: string
  category_name :: string

text \<open>
  The environment: the clock (\<open>now env k\<close> is what the call of
  \<open>datetime.now\<close> returns after \<open>k\<close> earlier calls), \<open>dateutil\<close>'s parser, the
  answers of the remote service to each request (\<open>Inl\<close> when \<open>requests\<close> raises or
  the status is not a success where the code calls \<open>raise_for_status\<close>), and the file
  system. In a GraphQL answer \<open>None\<close> is a JSON \<open>null\<close>: for \<open>categories\<close> and
  \<open>discussions\<close> the outer option is the \<open>repository\<close> object, for
  \<open>repository_id\<close> the inner one is its \<open>id\<close>, and a discussion node's \<open>id\<close> is an
  option too. \<open>waiting_time\<close> is the wording \<open>Assignee.get_waiting_time\<close> gives to an
  elapsed time, and \<open>expand_escapes\<close> is what the \<open>re\<close> module makes of a replacement
  string that contains a backslash (an error for a bad escape or a group reference).
\<close>

record env =
  now :: "nat \<Rightarrow> timestamp"
  parse :: "string \<Rightarrow> timestamp option"
  pulls :: "string \<Rightarrow> string \<Rightarrow> nat \<Rightarrow> exn + pr_dict list"
  timeline :: "string \<Rightarrow> string \<Rightarrow> int \<Rightarrow> nat \<Rightarrow> exn + event list"
  categories :: "string \<Rightarrow> string \<Rightarrow> exn + category list option"
  repository_id :: "string \<Rightarrow> string \<Rightarrow> exn + string option option"
  discussions :: "string \<Rightarrow> string \<Rightarrow> string \<Rightarrow> exn + string option list option"
  delete_status :: "string \<Rightarrow> exn + unit"
  create_status :: "string \<Rightarrow> string \<Rightarrow> string \<Rightarrow> string \<Rightarrow> exn + unit"
  path_exists :: "string \<Rightarrow> bool"
  read_file :: "string \<Rightarrow> exn + string"
  waiting_time :: "int \<Rightarrow> string"
  expand_escapes :: "string \<Rightarrow> exn + string"

definition issue :: "request \<Rightarrow> world \<Rightarrow> world" where
  "issue r w = w\<lparr>trace := trace w @ [r]\<rparr>"

section \<open>Timeline correlation\<close>

text \<open>
  The loop of \<open>get_pull_request_dict_with_timestamp\<close> over \<open>pr_dict['assignees']\<close>:
  the event's login is read for each assignee, its \<open>created_at\<close> only on a match.
\<close>

fun stamp_assignees ::
  "(string \<Rightarrow> timestamp option) \<Rightarrow> event \<Rightarrow> assignee_dict list \<Rightarrow> exn + assignee_dict list"
where
  "stamp_assignees prs ev [] = Inr []"
| "stamp_assignees prs ev (a # as) =
     (case assignee_login ev of
        None \<Rightarrow> Inl (KeyError ''assignee'')
      | Some l \<Rightarrow>
          if l = login a then
            (case event_created_at ev of
               None \<Rightarrow> Inl (KeyError ''created_at'')
             | Some s \<Rightarrow>
                 (case prs s of
                    None \<Rightarrow> Inl (ParserError s)
                  | Some t \<Rightarrow>
                      (case stamp_assignees prs ev as of
                         Inl e \<Rightarrow> Inl e
                       | Inr as' \<Rightarrow> Inr (a\<lparr>created_at := Some t\<rparr> # as'))))
          else
            (case stamp_assignees prs ev as of
               Inl e \<Rightarrow> Inl e
             | Inr as' \<Rightarrow> Inr (a # as')))"

definition get_pull_request_dict_with_timestamp ::
  "(string \<Rightarrow> timestamp option) \<Rightarrow> pr_dict \<Rightarrow> event \<Rightarrow> exn + pr_dict"
where
  "get_pull_request_dict_with_timestamp prs d ev =
     (case stamp_assignees prs ev (assignees_key d) of
        Inl e \<Rightarrow> Inl e
      | Inr as' \<Rightarrow> Inr (d\<lparr>assignees_key := as'\<rparr>))"

text \<open>
  The loop \<open>for event in timeline_subset\<close>. The state is the dictionary \<open>pr_dict\<close>
  and the local \<open>updated_pr_dict\<close>, \<open>None\<close> while the name is unbound. The source
  mutates the one dictionary both names refer to, so after an "assigned" event both
  components hold the same updated dictionary.
\<close>

fun process_events ::
  "(string \<Rightarrow> timestamp option) \<Rightarrow> event list \<Rightarrow> pr_dict \<times> pr_dict option \<Rightarrow>
   exn + pr_dict \<times> pr_dict option"
where
  "process_events prs [] st = Inr st"
| "process_events prs (ev # evs) (d, upd) =
     (if event_kind ev \<noteq> ''assigned'' then process_events prs evs (d, upd)
      else
        (case get_pull_request_dict_with_timestamp prs d ev of
           Inl e \<Rightarrow> Inl e
         | Inr d' \<Rightarrow> process_events prs evs (d', Some d')))"

text \<open>
  The \<open>while True\<close> loop of \<open>get_pull_request_object_from_dict\<close>: it need not
  terminate, since the service may answer every page with a non-empty list; \<open>None\<close> is
  the run that never returns. The result is the final binding of \<open>updated_pr_dict\<close>.
\<close>

partial_function (option) timeline_loop ::
  "env \<Rightarrow> string \<Rightarrow> string \<Rightarrow> int \<Rightarrow> pr_dict \<times> pr_dict option \<Rightarrow> nat \<Rightarrow> world \<Rightarrow>
   ((exn + pr_dict option) \<times> world) option"
where
  "timeline_loop env org_name repo_name num st page_number w =
     (case timeline env org_name repo_name num page_number of
        Inl e \<Rightarrow> Some (Inl e, issue (GetTimeline org_name repo_name num page_number 100) w)
      | Inr timeline_subset \<Rightarrow>
          if length timeline_subset = 0 then
            Some (Inr (snd st), issue (GetTimeline org_name repo_name num page_number 100) w)
          else
            (case process_events (parse env) timeline_subset st of
               Inl e \<Rightarrow>
                 Some (Inl e, issue (GetTimeline org_name repo_name num page_number 100) w)
             | Inr st' \<Rightarrow>
                 timeline_loop env org_name repo_name num st' (page_number + 1)
                   (issue (GetTimeline org_name repo_name num page_number 100) w)))"

text \<open>What the \<open>check_token\<close> decorator raises while \<open>_TOKEN\<close> is \<open>None\<close>.\<close>

definition not_initialized :: exn where
  "not_initialized =
     BaseException ''Initialize the service with github_services.init_service(TOKEN).''"

text \<open>
  \<open>get_pull_request_object_from_dict\<close>, with the \<open>check_token\<close> decorator first. The
  \<open>return\<close> reads \<open>updated_pr_dict\<close>, which is unbound when no "assigned" event was
  seen.
\<close>

definition get_pull_request_object_from_dict ::
  "env \<Rightarrow> string \<Rightarrow> string \<Rightarrow> pr_dict \<Rightarrow> world \<Rightarrow> ((exn + PullRequest) \<times> world) option"
where
  "get_pull_request_object_from_dict env org_name repo_name d w =
     (case token w of
        None \<Rightarrow> Some (Inl not_initialized, w)
      | Some tk \<Rightarrow>
          (case timeline_loop env org_name repo_name (number d) (d, None) 1 w of
             None \<Rightarrow> None
           | Some (Inl e, w') \<Rightarrow> Some (Inl e, w')
           | Some (Inr None, w') \<Rightarrow> Some (Inl (UnboundLocalError ''updated_pr_dict''), w')
           | Some (Inr (Some upd), w') \<Rightarrow> Some (Inr (from_github_response upd), w')))"

section \<open>Staleness filter\<close>

text \<open>
  \<open>reviewer_to_assigned_prs\<close> is a \<open>defaultdict(list)\<close>: its keys keep their insertion
  order, which \<open>main\<close> iterates, so it is an association list with distinct keys.
  \<open>dict_append k v m\<close> is \<open>m[k].append(v)\<close>.
\<close>

type_synonym overdue = "(string \<times> PullRequest list) list"

fun dict_append :: "string \<Rightarrow> PullRequest \<Rightarrow> overdue \<Rightarrow> overdue" where
  "dict_append k v [] = [(k, [v])]"
| "dict_append k v ((k', vs) # m) =
     (if k = k' then (k', vs @ [v]) # m else (k', vs) # dict_append k v m)"

definition dict_get :: "overdue \<Rightarrow> string \<Rightarrow> PullRequest list" where
  "dict_get m k = (case map_of m k of None \<Rightarrow> [] | Some vs \<Rightarrow> vs)"

text \<open>
  \<open>datetime.timedelta(hours=h)\<close> in microseconds. The argument is whatever \<open>argparse\<close>
  stored, \<open>None\<close> when the flag was not given; a \<open>timedelta\<close> holds at most 999999999
  days in either direction.
\<close>

definition timedelta_hours :: "int option \<Rightarrow> exn + int" where
  "timedelta_hours h =
     (case h of
        None \<Rightarrow> Inl (TypeError ''unsupported type for timedelta hours component: NoneType'')
      | Some n \<Rightarrow>
          if n div 24 < - 999999999 \<or> 999999999 < n div 24 then Inl OverflowError
          else Inr (n * 3600000000))"

definition tick :: "world \<Rightarrow> world" where
  "tick w = w\<lparr>ticks := Suc (ticks w)\<rparr>"

text \<open>
  The loop \<open>for reviewer in pull_request.assignees\<close>. The clock is read once for each
  reviewer; subtracting an absent timestamp raises \<open>TypeError\<close>; the \<open>timedelta\<close> is
  built only when the first conjunct of the condition holds.
\<close>

fun review_assignees ::
  "env \<Rightarrow> int option \<Rightarrow> PullRequest \<Rightarrow> Assignee list \<Rightarrow> overdue \<Rightarrow> world \<Rightarrow>
   (exn + overdue) \<times> world"
where
  "review_assignees env h p [] m w = (Inr m, w)"
| "review_assignees env h p (reviewer # rs) m w =
     (case assigned_on_timestamp reviewer of
        None \<Rightarrow>
          (Inl (TypeError
             ''unsupported operand type(s) for -: datetime.datetime and NoneType''), tick w)
      | Some ts \<Rightarrow>
          if username reviewer \<noteq> author_username p then
            (case timedelta_hours h of
               Inl e \<Rightarrow> (Inl e, tick w)
             | Inr threshold \<Rightarrow>
                 if now env (ticks w) - ts \<ge> threshold
                 then review_assignees env h p rs (dict_append (username reviewer) p m) (tick w)
                 else review_assignees env h p rs m (tick w))
          else review_assignees env h p rs m (tick w))"

text \<open>The loop \<open>for pull_request in pull_requests\<close>.\<close>

fun review_pull_requests ::
  "env \<Rightarrow> int option \<Rightarrow> PullRequest list \<Rightarrow> overdue \<Rightarrow> world \<Rightarrow> (exn + overdue) \<times> world"
where
  "review_pull_requests env h [] m w = (Inr m, w)"
| "review_pull_requests env h (p # ps) m w =
     (if \<not> is_reviewer_assigned p then review_pull_requests env h ps m w
      else
        (case review_assignees env h p (assignees p) m w of
           (Inl e, w') \<Rightarrow> (Inl e, w')
         | (Inr m', w') \<Rightarrow> review_pull_requests env h ps m' w'))"

text \<open>
  The list comprehension that turns a page of pull request dictionaries into objects,
  one timeline fetch after the other.
\<close>

fun pull_request_objects ::
  "env \<Rightarrow> string \<Rightarrow> string \<Rightarrow> pr_dict list \<Rightarrow> world \<Rightarrow>
   ((exn + PullRequest list) \<times> world) option"
where
  "pull_request_objects env org_name repo_name [] w = Some (Inr [], w)"
| "pull_request_objects env org_name repo_name (d # ds) w =
     (case get_pull_request_object_from_dict env org_name repo_name d w of
        None \<Rightarrow> None
      | Some (Inl e, w') \<Rightarrow> Some (Inl e, w')
      | Some (Inr p, w') \<Rightarrow>
          (case pull_request_objects env org_name repo_name ds w' of
             None \<Rightarrow> None
           | Some (Inl e, w'') \<Rightarrow> Some (Inl e, w'')
           | Some (Inr ps, w'') \<Rightarrow> Some (Inr (p # ps), w'')))"

text \<open>The \<open>while True\<close> loop of \<open>get_prs_assigned_to_reviewers\<close>.\<close>

partial_function (option) pulls_loop ::
  "env \<Rightarrow> string \<Rightarrow> string \<Rightarrow> int option \<Rightarrow> overdue \<Rightarrow> nat \<Rightarrow> world \<Rightarrow>
   ((exn + overdue) \<times> world) option"
where
  "pulls_loop env org_name repo_name h m page_number w =
     (case pulls env org_name repo_name page_number of
        Inl e \<Rightarrow> Some (Inl e, issue (GetPulls org_name repo_name page_number 100) w)
      | Inr pr_subset \<Rightarrow>
          if length pr_subset = 0 then
            Some (Inr m, issue (GetPulls org_name repo_name page_number 100) w)
          else
            (case pull_request_objects env org_name repo_name pr_subset
                    (issue (GetPulls org_name repo_name page_number 100) w) of
               None \<Rightarrow> None
             | Some (Inl e, w') \<Rightarrow> Some (Inl e, w')
             | Some (Inr pull_requests, w') \<Rightarrow>
                 (case review_pull_requests env h pull_requests m w' of
                    (Inl e, w'') \<Rightarrow> Some (Inl e, w'')
                  | (Inr m', w'') \<Rightarrow>
                      pulls_loop env org_name repo_name h m' (page_number + 1) w'')))"

definition get_prs_assigned_to_reviewers ::
  "env \<Rightarrow> string \<Rightarrow> string \<Rightarrow> int option \<Rightarrow> world \<Rightarrow> ((exn + overdue) \<times> world) option"
where
  "get_prs_assigned_to_reviewers env org_name repo_name max_waiting_time_in_hours w =
     (case token w of
        None \<Rightarrow> Some (Inl not_initialized, w)
      | Some tk \<Rightarrow> pulls_loop env org_name repo_name max_waiting_time_in_hours [] 1 w)"

section \<open>Discussions\<close>

text \<open>
  A value that \<open>argparse\<close> may have left \<open>None\<close> is an option; \<open>py_str\<close> is how an
  f-string prints it.
\<close>

definition py_str :: "string option \<Rightarrow> string" where
  "py_str v = (case v of None \<Rightarrow> ''None'' | Some s \<Rightarrow> s)"

text \<open>Subscripting a JSON \<open>null\<close>.\<close>

definition not_subscriptable :: exn where
  "not_subscriptable = TypeError ''NoneType object is not subscriptable''"

text \<open>
  The loop of \<open>_get_category_id\<close> over the category nodes, which stops at the first
  node whose name equals the wanted one.
\<close>

fun find_category_id :: "string option \<Rightarrow> category list \<Rightarrow> string option" where
  "find_category_id discussion_category [] = None"
| "find_category_id discussion_category (c # cs) =
     (if Some (category_name c) = discussion_category then Some (category_id c)
      else find_category_id discussion_category cs)"

definition get_category_id ::
  "env \<Rightarrow> string \<Rightarrow> string \<Rightarrow> string option \<Rightarrow> world \<Rightarrow> (exn + string) \<times> world"
where
  "get_category_id env org_name repo_name discussion_category w =
     (case token w of
        None \<Rightarrow> (Inl not_initialized, w)
      | Some tk \<Rightarrow>
          (case categories env org_name repo_name of
             Inl e \<Rightarrow> (Inl e, issue (PostCategories org_name repo_name) w)
           | Inr None \<Rightarrow> (Inl not_subscriptable, issue (PostCategories org_name repo_name) w)
           | Inr (Some discussion_categories) \<Rightarrow>
               (case find_category_id discussion_category discussion_categories of
                  None \<Rightarrow>
                    (Inl (BaseException
                       (py_str discussion_category @
                        '' category is missing in GitHub Discussion.'')),
                     issue (PostCategories org_name repo_name) w)
                | Some cid \<Rightarrow> (Inr cid, issue (PostCategories org_name repo_name) w))))"

definition get_repository_id ::
  "env \<Rightarrow> string \<Rightarrow> string \<Rightarrow> world \<Rightarrow> (exn + string) \<times> world"
where
  "get_repository_id env org_name repo_name w =
     (case token w of
        None \<Rightarrow> (Inl not_initialized, w)
      | Some tk \<Rightarrow>
          (case repository_id env org_name repo_name of
             Inl e \<Rightarrow> (Inl e, issue (PostRepository org_name repo_name) w)
           | Inr None \<Rightarrow> (Inl not_subscriptable, issue (PostRepository org_name repo_name) w)
           | Inr (Some None) \<Rightarrow>
               (Inl (BaseException
                  (org_name @ ''/'' @ repo_name @ '' doesn'' @ [CHR 0x27] @ ''t exist.'')),
                issue (PostRepository org_name repo_name) w)
           | Inr (Some (Some rid)) \<Rightarrow> (Inr rid, issue (PostRepository org_name repo_name) w)))"

definition get_discussion_ids ::
  "env \<Rightarrow> string \<Rightarrow> string \<Rightarrow> string option \<Rightarrow> world \<Rightarrow> (exn + string list) \<times> world"
where
  "get_discussion_ids env org_name repo_name discussion_category w =
     (case token w of
        None \<Rightarrow> (Inl not_initialized, w)
      | Some tk \<Rightarrow>
          (case get_category_id env org_name repo_name discussion_category w of
             (Inl e, w') \<Rightarrow> (Inl e, w')
           | (Inr cid, w') \<Rightarrow>
               (case discussions env org_name repo_name cid of
                  Inl e \<Rightarrow> (Inl e, issue (PostDiscussions org_name repo_name cid) w')
                | Inr None \<Rightarrow>
                    (Inl not_subscriptable, issue (PostDiscussions org_name repo_name cid) w')
                | Inr (Some nodes) \<Rightarrow>
                    (Inr (List.map_filter id nodes),
                     issue (PostDiscussions org_name repo_name cid) w'))))"

definition delete_discussion :: "env \<Rightarrow> string \<Rightarrow> world \<Rightarrow> (exn + unit) \<times> world" where
  "delete_discussion env discussion_id w =
     (case delete_status env discussion_id of
        Inl e \<Rightarrow> (Inl e, issue (PostDeleteDiscussion discussion_id) w)
      | Inr u \<Rightarrow> (Inr (), issue (PostDeleteDiscussion discussion_id) w))"

text \<open>The loop \<open>for discussion_id in discussion_ids\<close> of \<open>delete_discussions\<close>.\<close>

fun delete_each :: "env \<Rightarrow> string list \<Rightarrow> world \<Rightarrow> (exn + unit) \<times> world" where
  "delete_each env [] w = (Inr (), w)"
| "delete_each env (discussion_id # ids) w =
     (case delete_discussion env discussion_id w of
        (Inl e, w') \<Rightarrow> (Inl e, w')
      | (Inr u, w') \<Rightarrow> delete_each env ids w')"

definition delete_discussions ::
  "env \<Rightarrow> string \<Rightarrow> string \<Rightarrow> string option \<Rightarrow> world \<Rightarrow> (exn + unit) \<times> world"
where
  "delete_discussions env org_name repo_name discussion_category w =
     (case token w of
        None \<Rightarrow> (Inl not_initialized, w)
      | Some tk \<Rightarrow>
          (case get_discussion_ids env org_name repo_name discussion_category w of
             (Inl e, w') \<Rightarrow> (Inl e, w')
           | (Inr discussion_ids, w') \<Rightarrow> delete_each env discussion_ids w'))"

definition create_discussion ::
  "env \<Rightarrow> string \<Rightarrow> string \<Rightarrow> string option \<Rightarrow> string \<Rightarrow> string \<Rightarrow> world \<Rightarrow>
   (exn + unit) \<times> world"
where
  "create_discussion env org_name repo_name discussion_category discussion_title
     discussion_body w =
     (case token w of
        None \<Rightarrow> (Inl not_initialized, w)
      | Some tk \<Rightarrow>
          (case get_category_id env org_name repo_name discussion_category w of
             (Inl e, w') \<Rightarrow> (Inl e, w')
           | (Inr cid, w') \<Rightarrow>
               (case get_repository_id env org_name repo_name w' of
                  (Inl e, w'') \<Rightarrow> (Inl e, w'')
                | (Inr repo_id, w'') \<Rightarrow>
                    (case create_status env repo_id cid discussion_title discussion_body of
                       Inl e \<Rightarrow>
                         (Inl e, issue (PostCreateDiscussion repo_id cid discussion_title
                                          discussion_body) w'')
                     | Inr u \<Rightarrow>
                         (Inr (), issue (PostCreateDiscussion repo_id cid discussion_title
                                           discussion_body) w'')))))"

section \<open>Notification rendering\<close>

text \<open>How an f-string prints an integer.\<close>

fun str_nat :: "nat \<Rightarrow> string" where
  "str_nat n =
     (if n < 10 then [''0123456789'' ! n]
      else str_nat (n div 10) @ [''0123456789'' ! (n mod 10)])"

definition str_int :: "int \<Rightarrow> string" where
  "str_int i = (if i < 0 then ''-'' @ str_nat (nat (- i)) else str_nat (nat i))"

text \<open>\<open>sep.join(xs)\<close>.\<close>

fun str_join :: "string \<Rightarrow> string list \<Rightarrow> string" where
  "str_join sep [] = []"
| "str_join sep [x] = x"
| "str_join sep (x # y # ys) = x @ sep @ str_join sep (y # ys)"

definition newline :: string where
  "newline = [CHR 0x0A]"

text \<open>
  Modelled from the spec: \<open>Assignee.get_waiting_time\<close>, absent from the sources. It
  reads the clock when it is called and words the time elapsed since the assignment.
\<close>

definition get_waiting_time :: "env \<Rightarrow> Assignee \<Rightarrow> world \<Rightarrow> (exn + string) \<times> world" where
  "get_waiting_time env a w =
     (case assigned_on_timestamp a of
        None \<Rightarrow>
          (Inl (TypeError
             ''unsupported operand type(s) for -: datetime.datetime and NoneType''), tick w)
      | Some ts \<Rightarrow> (Inr (waiting_time env (now env (ticks w) - ts)), tick w))"

text \<open>The loop of \<open>generate_message\<close> that builds \<open>pr_list_messages\<close>.\<close>

fun pr_list_messages ::
  "env \<Rightarrow> string \<Rightarrow> PullRequest list \<Rightarrow> world \<Rightarrow> (exn + string list) \<times> world"
where
  "pr_list_messages env u [] w = (Inr [], w)"
| "pr_list_messages env u (pull_request # ps) w =
     (case get_assignee pull_request u of
        None \<Rightarrow> pr_list_messages env u ps w
      | Some assignee \<Rightarrow>
          (case get_waiting_time env assignee w of
             (Inl e, w') \<Rightarrow> (Inl e, w')
           | (Inr waiting, w') \<Rightarrow>
               (case pr_list_messages env u ps w' of
                  (Inl e, w'') \<Rightarrow> (Inl e, w'')
                | (Inr msgs, w'') \<Rightarrow>
                    (Inr ((''- [#'' @ str_int (pr_number pull_request) @ '']('' @
                           url pull_request @ '') [Waiting for the last '' @ waiting @ '']'')
                          # msgs), w''))))"

text \<open>
  The two patterns are \<open>\{\{ *username *\}\}\<close> and \<open>\{\{ *pr_list *\}\}\<close>: two opening
  braces, any number of space characters, the name, any number of space characters, two
  closing braces. \<open>match_token name s\<close> is what remains of \<open>s\<close> behind a match at its
  start. The greedy \<open>dropWhile\<close> loses no match, since neither the name nor the closing
  brace starts with a space.
\<close>

fun strip_prefix :: "string \<Rightarrow> string \<Rightarrow> string option" where
  "strip_prefix [] s = Some s"
| "strip_prefix (p # ps) [] = None"
| "strip_prefix (p # ps) (c # cs) = (if p = c then strip_prefix ps cs else None)"

definition match_token :: "string \<Rightarrow> string \<Rightarrow> string option" where
  "match_token name s =
     (case strip_prefix ''{{'' s of
        None \<Rightarrow> None
      | Some s1 \<Rightarrow>
          (case strip_prefix name (dropWhile (\<lambda>c. c = CHR '' '') s1) of
             None \<Rightarrow> None
           | Some s2 \<Rightarrow> strip_prefix ''}}'' (dropWhile (\<lambda>c. c = CHR '' '') s2)))"

lemma strip_prefix_length: "strip_prefix p s = Some r \<Longrightarrow> length r + length p = length s"
  by (induction p s rule: strip_prefix.induct) (auto split: if_splits)

lemma match_token_shorter: "match_token name s = Some r \<Longrightarrow> length r < length s"
proof -
  assume m: "match_token name s = Some r"
  then obtain s1 s2 where
    s1: "strip_prefix ''{{'' s = Some s1"
    and s2: "strip_prefix name (dropWhile (\<lambda>c. c = CHR '' '') s1) = Some s2"
    and r: "strip_prefix ''}}'' (dropWhile (\<lambda>c. c = CHR '' '') s2) = Some r"
    by (auto simp: match_token_def split: option.splits)
  have "length r \<le> length (dropWhile (\<lambda>c. c = CHR '' '') s2)"
    using strip_prefix_length[OF r] by simp
  also have "\<dots> \<le> length s2" by (rule length_dropWhile_le)
  also have "\<dots> \<le> length (dropWhile (\<lambda>c. c = CHR '' '') s1)"
    using strip_prefix_length[OF s2] by simp
  also have "\<dots> \<le> length s1" by (rule length_dropWhile_le)
  also have "\<dots> < length s" using strip_prefix_length[OF s1] by simp
  finally show ?thesis .
qed

text \<open>
  \<open>re.sub\<close> with one of the two patterns and a replacement already expanded: the
  text is scanned from the left, each match is replaced and the scan goes on behind it.
\<close>

function sub_all :: "string \<Rightarrow> string \<Rightarrow> string \<Rightarrow> string" where
  "sub_all name repl [] = []"
| "sub_all name repl (c # cs) =
     (case match_token name (c # cs) of
        Some rest \<Rightarrow> repl @ sub_all name repl rest
      | None \<Rightarrow> c # sub_all name repl cs)"
  by pat_completeness auto
termination
  by (relation "measure (\<lambda>(name, repl, s). length s)") (auto dest: match_token_shorter)

text \<open>
  \<open>re.sub(pattern, repl, message)\<close> with a string \<open>repl\<close>: a replacement without a
  backslash is inserted as it is, any other goes through the escape processing first.
\<close>

definition re_sub :: "env \<Rightarrow> string \<Rightarrow> string \<Rightarrow> string \<Rightarrow> exn + string" where
  "re_sub env name repl message =
     (if CHR 0x5C \<in> set repl then
        (case expand_escapes env repl of
           Inl e \<Rightarrow> Inl e
         | Inr expanded \<Rightarrow> Inr (sub_all name expanded message))
      else Inr (sub_all name repl message))"

definition generate_message ::
  "env \<Rightarrow> string \<Rightarrow> PullRequest list \<Rightarrow> string \<Rightarrow> world \<Rightarrow> (exn + string) \<times> world"
where
  "generate_message env u pull_requests template_path w =
     (case pr_list_messages env u pull_requests w of
        (Inl e, w') \<Rightarrow> (Inl e, w')
      | (Inr msgs, w') \<Rightarrow>
          if \<not> path_exists env template_path then
            (Inl (BaseException (''Please add a template file at: '' @ template_path)), w')
          else
            (case read_file env template_path of
               Inl e \<Rightarrow> (Inl e, w')
             | Inr message \<Rightarrow>
                 (case re_sub env ''username'' u message of
                    Inl e \<Rightarrow> (Inl e, w')
                  | Inr message1 \<Rightarrow>
                      (case re_sub env ''pr_list'' (str_join newline msgs) message1 of
                         Inl e \<Rightarrow> (Inl e, w')
                       | Inr message2 \<Rightarrow> (Inr message2, w')))))"

section \<open>The workflow\<close>

text \<open>The namespace \<open>PARSER.parse_args\<close> returns; a flag that was not given is \<open>None\<close>.\<close>

record parsed_args =
  arg_token :: "string option"
  arg_repo :: "string option"
  arg_category :: "string option"
  arg_title :: "string option"
  arg_max_wait_hours :: "int option"
  arg_verbose :: bool

definition TEMPLATE_PATH :: string where
  "TEMPLATE_PATH = ''.github/PENDING_REVIEW_NOTIFICATION_TEMPLATE.md''"

definition init_service :: "string option \<Rightarrow> world \<Rightarrow> (exn + unit) \<times> world" where
  "init_service tk w =
     (if tk = None \<or> tk = Some '''' then
        (Inl (BaseException ''Must provide a valid GitHub Personal Access Token.''), w)
      else (Inr (), w\<lparr>token := tk\<rparr>))"

text \<open>
  The list \<open>required_args\<close> of \<open>main\<close> holds two string literals, and the loop over it
  tests each element against \<open>None\<close>.
\<close>

definition required_args :: "string option list" where
  "required_args = [Some ''max_wait_hours'', Some ''discussion_category'']"

fun check_required_args :: "string option list \<Rightarrow> exn + unit" where
  "check_required_args [] = Inr ()"
| "check_required_args (arg # args) =
     (if arg = None then Inl (BaseException (''Please provide '' @ py_str arg @ '' argument.''))
      else check_required_args args)"

text \<open>The loop of \<open>main\<close> over the items of \<open>reviewer_to_assigned_prs\<close>.\<close>

fun notify_reviewers ::
  "env \<Rightarrow> string \<Rightarrow> string \<Rightarrow> string option \<Rightarrow> overdue \<Rightarrow> world \<Rightarrow> (exn + unit) \<times> world"
where
  "notify_reviewers env org_name repo_name discussion_category [] w = (Inr (), w)"
| "notify_reviewers env org_name repo_name discussion_category ((reviewer_name, pr_list) # m) w =
     (case generate_message env reviewer_name pr_list TEMPLATE_PATH w of
        (Inl e, w') \<Rightarrow> (Inl e, w')
      | (Inr discussion_body, w') \<Rightarrow>
          (case create_discussion env org_name repo_name discussion_category
                  (''Pending Reviews: @'' @ reviewer_name) discussion_body w' of
             (Inl e, w'') \<Rightarrow> (Inl e, w'')
           | (Inr u, w'') \<Rightarrow>
               notify_reviewers env org_name repo_name discussion_category m w''))"

text \<open>
  \<open>main\<close>, from the parsed arguments on. The logging set up by \<open>--verbose\<close> has no
  effect on what is computed or requested and is left out.
\<close>

definition main :: "env \<Rightarrow> parsed_args \<Rightarrow> world \<Rightarrow> ((exn + unit) \<times> world) option" where
  "main env parsed w =
     (case check_required_args required_args of
        Inl e \<Rightarrow> Some (Inl e, w)
      | Inr u \<Rightarrow>
          (case init_service (arg_token parsed) w of
             (Inl e, w1) \<Rightarrow> Some (Inl e, w1)
           | (Inr u, w1) \<Rightarrow>
               (case get_prs_assigned_to_reviewers env ''oppia'' ''oppia''
                       (arg_max_wait_hours parsed) w1 of
                  None \<Rightarrow> None
                | Some (Inl e, w2) \<Rightarrow> Some (Inl e, w2)
                | Some (Inr reviewer_to_assigned_prs, w2) \<Rightarrow>
                    (case delete_discussions env ''SD-13'' ''test-pending-review-notifier''
                            (arg_category parsed) w2 of
                       (Inl e, w3) \<Rightarrow> Some (Inl e, w3)
                     | (Inr u, w3) \<Rightarrow>
                         Some (notify_reviewers env ''SD-13'' ''test-pending-review-notifier''
                                 (arg_category parsed) reviewer_to_assigned_prs w3)))))"

section \<open>Notions used by the properties\<close>

text \<open>Issuing a list of requests one after the other.\<close>

definition issue_all :: "request list \<Rightarrow> world \<Rightarrow> world" where
  "issue_all rs w = w\<lparr>trace := trace w @ rs\<rparr>"

text \<open>The timeline requests for the \<open>n\<close> pages from page \<open>k\<close> on, in ascending order.\<close>

definition timeline_requests :: "string \<Rightarrow> string \<Rightarrow> int \<Rightarrow> nat \<Rightarrow> nat \<Rightarrow> request list" where
  "timeline_requests org_name repo_name num k n =
     map (\<lambda>p. GetTimeline org_name repo_name num p 100) [k ..< k + n]"

text \<open>
  The "assigned" events for a login, in processing order, and the timestamp the
  last-write-wins rule leaves on an assignee after a sequence of events: the one it had
  when no event matches, else the parsed \<open>created_at\<close> of the last matching event.
\<close>

definition matching :: "string \<Rightarrow> event list \<Rightarrow> event list" where
  "matching l evs =
     filter (\<lambda>ev. event_kind ev = ''assigned'' \<and> assignee_login ev = Some l) evs"

definition recorded ::
  "(string \<Rightarrow> timestamp option) \<Rightarrow> event list \<Rightarrow> assignee_dict \<Rightarrow> timestamp option"
where
  "recorded prs evs a =
     (if matching (login a) evs = [] then created_at a
      else Option.bind (event_created_at (last (matching (login a) evs))) prs)"

text \<open>The pull request listing requests for the \<open>n\<close> pages from page \<open>k\<close> on.\<close>

fun is_GetPulls :: "request \<Rightarrow> bool" where
  "is_GetPulls (GetPulls org_name repo_name page per_page) = True"
| "is_GetPulls r = False"

definition pulls_requests :: "string \<Rightarrow> string \<Rightarrow> nat \<Rightarrow> nat \<Rightarrow> request list" where
  "pulls_requests org_name repo_name k n =
     map (\<lambda>p. GetPulls org_name repo_name p 100) [k ..< k + n]"

text \<open>
  The (pull request, assignee) pairs the staleness loops go through, in processing
  order, and the rule of the specification for one pair: the assignee is not the author
  and the time elapsed between the assignment and the clock reading \<open>now env k\<close> is at
  least \<open>n\<close> hours. \<open>overdue_of env n t0 prs u\<close> lists the pull requests of the pairs
  that satisfy the rule and whose assignee is \<open>u\<close>, when the first pair reads the clock
  after \<open>t0\<close> earlier reads and every pair reads it once.
\<close>

definition pairs :: "PullRequest list \<Rightarrow> (PullRequest \<times> Assignee) list" where
  "pairs prs = concat (map (\<lambda>p. map (Pair p) (assignees p)) prs)"

definition is_overdue :: "env \<Rightarrow> int \<Rightarrow> nat \<Rightarrow> PullRequest \<Rightarrow> Assignee \<Rightarrow> bool" where
  "is_overdue env n k p a =
     (username a \<noteq> author_username p \<and>
      (case assigned_on_timestamp a of
         None \<Rightarrow> False
       | Some ts \<Rightarrow> n * 3600000000 \<le> now env k - ts))"

definition overdue_in ::
  "env \<Rightarrow> int \<Rightarrow> nat \<Rightarrow> (PullRequest \<times> Assignee) list \<Rightarrow> string \<Rightarrow> PullRequest list"
where
  "overdue_in env n t0 pas u =
     map (\<lambda>(k, p, a). p)
       (filter (\<lambda>(k, p, a). username a = u \<and> is_overdue env n k p a)
          (zip [t0 ..< t0 + length pas] pas))"

definition overdue_of ::
  "env \<Rightarrow> int \<Rightarrow> nat \<Rightarrow> PullRequest list \<Rightarrow> string \<Rightarrow> PullRequest list"
where
  "overdue_of env n t0 prs u = overdue_in env n t0 (pairs prs) u"

text \<open>
  The requests of a listing of the repository \<open>org_name/repo_name\<close>: its pull request
  pages and the timeline pages of its pull requests.
\<close>

fun listing_of :: "string \<Rightarrow> string \<Rightarrow> request \<Rightarrow> bool" where
  "listing_of org_name repo_name (GetPulls org_name' repo_name' page per_page) =
     (org_name' = org_name \<and> repo_name' = repo_name)"
| "listing_of org_name repo_name (GetTimeline org_name' repo_name' num page per_page) =
     (org_name' = org_name \<and> repo_name' = repo_name)"
| "listing_of org_name repo_name r = False"

text \<open>Every assignee of the pull request, or of the pull requests of the map, has a timestamp.\<close>

definition stamped :: "PullRequest \<Rightarrow> bool" where
  "stamped p = (\<forall>a \<in> set (assignees p). assigned_on_timestamp a \<noteq> None)"

definition all_stamped :: "overdue \<Rightarrow> bool" where
  "all_stamped m = (\<forall>ups \<in> set m. \<forall>p \<in> set (snd ups). stamped p)"

text \<open>
  The ids of the discussions listed in the category \<open>discussion_category\<close> of a
  repository, as \<open>_get_discussion_ids\<close> obtains them.
\<close>

definition listed_discussions :: "env \<Rightarrow> string \<Rightarrow> string \<Rightarrow> string option \<Rightarrow> string list" where
  "listed_discussions env org_name repo_name discussion_category =
     (case categories env org_name repo_name of
        Inr (Some cats) \<Rightarrow>
          (case find_category_id discussion_category cats of
             Some cid \<Rightarrow>
               (case discussions env org_name repo_name cid of
                  Inr (Some nodes) \<Rightarrow> List.map_filter id nodes
                | _ \<Rightarrow> [])
           | None \<Rightarrow> [])
      | _ \<Rightarrow> [])"

text \<open>
  \<open>cid\<close> is the id the category lookup of the repository gives for
  \<open>discussion_category\<close>.
\<close>

definition category_of :: "env \<Rightarrow> string \<Rightarrow> string \<Rightarrow> string option \<Rightarrow> string \<Rightarrow> bool" where
  "category_of env org_name repo_name discussion_category cid =
     (case categories env org_name repo_name of
        Inr (Some cats) \<Rightarrow> find_category_id discussion_category cats = Some cid
      | _ \<Rightarrow> False)"

text \<open>
  What it means for a request to concern the discussions of the repository
  \<open>org_name/repo_name\<close>: a query names the repository (and the listing of discussions
  its category), a deletion names a discussion listed in its category, a creation names
  the repository's id and the id of its category.
\<close>

fun discussion_request :: "env \<Rightarrow> string \<Rightarrow> string \<Rightarrow> string option \<Rightarrow> request \<Rightarrow> bool" where
  "discussion_request env org_name repo_name dc (PostCategories org_name' repo_name') =
     (org_name' = org_name \<and> repo_name' = repo_name)"
| "discussion_request env org_name repo_name dc (PostRepository org_name' repo_name') =
     (org_name' = org_name \<and> repo_name' = repo_name)"
| "discussion_request env org_name repo_name dc (PostDiscussions org_name' repo_name' cid) =
     (org_name' = org_name \<and> repo_name' = repo_name \<and>
      category_of env org_name repo_name dc cid)"
| "discussion_request env org_name repo_name dc (PostDeleteDiscussion discussion_id) =
     (discussion_id \<in> set (listed_discussions env org_name repo_name dc))"
| "discussion_request env org_name repo_name dc
     (PostCreateDiscussion repo_id cid discussion_title discussion_body) =
     (repository_id env org_name repo_name = Inr (Some (Some repo_id)) \<and>
      category_of env org_name repo_name dc cid)"
| "discussion_request env org_name repo_name dc r = False"

text \<open>
  The targets of the requests of \<open>main\<close>: listings of \<open>oppia/oppia\<close> and discussion
  requests for \<open>SD-13/test-pending-review-notifier\<close>.
\<close>

definition hard_coded_target :: "env \<Rightarrow> string option \<Rightarrow> request \<Rightarrow> bool" where
  "hard_coded_target env dc r =
     (listing_of ''oppia'' ''oppia'' r \<or>
      discussion_request env ''SD-13'' ''test-pending-review-notifier'' dc r)"

text \<open>
  Between the worlds \<open>w\<close> and \<open>w'\<close> requests were only added to the trace, and each
  added request satisfies \<open>P\<close>.
\<close>

definition issues_only :: "(request \<Rightarrow> bool) \<Rightarrow> world \<Rightarrow> world \<Rightarrow> bool" where
  "issues_only P w w' = (\<exists>rs. trace w' = trace w @ rs \<and> (\<forall>x \<in> set rs. P x))"

text \<open>
  The rendering as the specification words it: the pull requests on which \<open>u\<close> is an
  assignee, each with \<open>u\<close>'s assignee record; the line for one of them, a markdown link
  showing the number and pointing at the url, followed by the waiting time at the clock
  reading \<open>t\<close>; and the lines for a list of pull requests when \<open>t0\<close> clock readings
  were made before, one reading for each line.
\<close>

definition assigned_to :: "string \<Rightarrow> PullRequest list \<Rightarrow> (PullRequest \<times> Assignee) list" where
  "assigned_to u prs = List.map_filter (\<lambda>p. map_option (Pair p) (get_assignee p u)) prs"

definition rendered_line :: "env \<Rightarrow> nat \<Rightarrow> PullRequest \<Rightarrow> Assignee \<Rightarrow> string" where
  "rendered_line env t p a =
     ''- [#'' @ str_int (pr_number p) @ '']('' @ url p @ '') [Waiting for the last '' @
     waiting_time env (now env t - the (assigned_on_timestamp a)) @ '']''"

definition rendered_lines :: "env \<Rightarrow> string \<Rightarrow> nat \<Rightarrow> PullRequest list \<Rightarrow> string list" where
  "rendered_lines env u t0 prs =
     map (\<lambda>(t, p, a). rendered_line env t p a) (List.enumerate t0 (assigned_to u prs))"

section \<open>A concrete run\<close>

text \<open>
  The scenario of the repository's tests: two pull requests by \<open>authorName\<close>, each
  assigned to \<open>reviewerName1\<close> and \<open>reviewerName2\<close>, with assignments 22 and 56 hours
  old on the first and 23 and 19 hours old on the second; any other pull request has a
  timeline without "assigned" events. The clock stands at 2023-08-02T00:24:38Z.
\<close>

definition test_now :: timestamp where
  "test_now = 1690935878000000"

definition test_parse :: "string \<Rightarrow> timestamp option" where
  "test_parse = map_of
     [(''2023-08-01T02:24:38Z'', 1690856678000000),
      (''2023-07-30T16:24:38Z'', 1690734278000000),
      (''2023-08-01T01:24:38Z'', 1690853078000000),
      (''2023-08-01T05:24:38Z'', 1690867478000000)]"

definition test_assignees :: "assignee_dict list" where
  "test_assignees =
     [\<lparr>login = ''reviewerName1'', created_at = None\<rparr>,
      \<lparr>login = ''reviewerName2'', created_at = None\<rparr>]"

definition pull_123 :: pr_dict where
  "pull_123 =
     \<lparr>number = 123, html_url = ''https://githuburl.pull/123'', title_key = ''PR title 1'',
      user_login = ''authorName'', assignees_key = test_assignees\<rparr>"

definition pull_234 :: pr_dict where
  "pull_234 =
     \<lparr>number = 234, html_url = ''https://githuburl.pull/234'', title_key = ''PR title 2'',
      user_login = ''authorName'', assignees_key = test_assignees\<rparr>"

definition pull_999 :: pr_dict where
  "pull_999 =
     \<lparr>number = 999, html_url = ''https://githuburl.pull/999'', title_key = ''PR title 3'',
      user_login = ''authorName'', assignees_key = test_assignees\<rparr>"

definition created_event :: event where
  "created_event = \<lparr>event_kind = ''created'', assignee_login = None, event_created_at = None\<rparr>"

definition assigned_event :: "string \<Rightarrow> string \<Rightarrow> event" where
  "assigned_event l s =
     \<lparr>event_kind = ''assigned'', assignee_login = Some l, event_created_at = Some s\<rparr>"

definition timeline1 :: "event list" where
  "timeline1 =
     [created_event,
      assigned_event ''reviewerName1'' ''2023-08-01T02:24:38Z'',
      assigned_event ''reviewerName2'' ''2023-07-30T16:24:38Z'']"

definition timeline2 :: "event list" where
  "timeline2 =
     [created_event,
      assigned_event ''reviewerName1'' ''2023-08-01T01:24:38Z'',
      assigned_event ''reviewerName2'' ''2023-08-01T05:24:38Z'']"

definition test_template :: string where
  "test_template = ''{{ username }}'' @ newline @ ''{{ pr_list }}''"

definition test_categories :: "category list" where
  "test_categories =
     [\<lparr>category_id = ''test_category_id_1'', category_name = ''test_category_name_1''\<rparr>,
      \<lparr>category_id = ''test_category_id_2'', category_name = ''test_category_name_2''\<rparr>]"

definition test_env :: env where
  "test_env =
     \<lparr>now = (\<lambda>k. test_now),
      parse = test_parse,
      pulls = (\<lambda>org_name repo_name page.
        if page = 1 then Inr [pull_123, pull_234] else Inr []),
      timeline = (\<lambda>org_name repo_name num page.
        if page = 1 then
          (if num = 123 then Inr timeline1
           else if num = 234 then Inr timeline2 else Inr [created_event])
        else Inr []),
      categories = (\<lambda>org_name repo_name. Inr (Some test_categories)),
      repository_id = (\<lambda>org_name repo_name. Inr (Some (Some ''test_repository_id''))),
      discussions = (\<lambda>org_name repo_name cid. Inr (Some [Some ''test_discussion_id_1''])),
      delete_status = (\<lambda>discussion_id. Inr ()),
      create_status = (\<lambda>repo_id cid discussion_title discussion_body. Inr ()),
      path_exists = (\<lambda>path. path = TEMPLATE_PATH),
      read_file = (\<lambda>path. Inr test_template),
      waiting_time = (\<lambda>elapsed. str_int (elapsed div 3600000000) @ '' hours''),
      expand_escapes = (\<lambda>repl. Inl (ReError ''bad escape''))\<rparr>"

definition test_world :: world where
  "test_world = \<lparr>token = Some ''my_github_token'', ticks = 0, trace = []\<rparr>"

text \<open>
  A timeline over two pages on which \<open>reviewerName1\<close> is assigned twice, 22 hours
  ago on the first page and 19 hours ago on the second.
\<close>

definition reassigned_pages :: "event list list" where
  "reassigned_pages =
     [[assigned_event ''reviewerName1'' ''2023-08-01T02:24:38Z''],
      [created_event, assigned_event ''reviewerName1'' ''2023-08-01T05:24:38Z'']]"

definition reassigned_env :: env where
  "reassigned_env =
     test_env\<lparr>timeline := (\<lambda>org_name repo_name num page.
        if page = 1 then Inr (reassigned_pages ! 0)
        else if page = 2 then Inr (reassigned_pages ! 1) else Inr [])\<rparr>"

text \<open>The objects the two pull requests of the scenario become.\<close>

definition object_123 :: PullRequest where
  "object_123 =
     \<lparr>url = ''https://githuburl.pull/123'', pr_number = 123, author_username = ''authorName'',
      title = ''PR title 1'',
      assignees =
        [\<lparr>username = ''reviewerName1'', assigned_on_timestamp = Some 1690856678000000\<rparr>,
         \<lparr>username = ''reviewerName2'', assigned_on_timestamp = Some 1690734278000000\<rparr>]\<rparr>"

definition object_234 :: PullRequest where
  "object_234 =
     \<lparr>url = ''https://githuburl.pull/234'', pr_number = 234, author_username = ''authorName'',
      title = ''PR title 2'',
      assignees =
        [\<lparr>username = ''reviewerName1'', assigned_on_timestamp = Some 1690853078000000\<rparr>,
         \<lparr>username = ''reviewerName2'', assigned_on_timestamp = Some 1690867478000000\<rparr>]\<rparr>"

definition test_timeline_trace :: "request list" where
  "test_timeline_trace =
     [GetTimeline ''oppia'' ''oppia'' 123 1 100, GetTimeline ''oppia'' ''oppia'' 123 2 100,
      GetTimeline ''oppia'' ''oppia'' 234 1 100, GetTimeline ''oppia'' ''oppia'' 234 2 100]"

text \<open>
  A pull request whose first reviewer was assigned exactly 20 hours before the clock
  reading and whose second reviewer was assigned one second later.
\<close>

definition pull_555 :: pr_dict where
  "pull_555 =
     \<lparr>number = 555, html_url = ''https://githuburl.pull/555'', title_key = ''PR title 5'',
      user_login = ''authorName'', assignees_key = test_assignees\<rparr>"

definition boundary_env :: env where
  "boundary_env =
     test_env\<lparr>
       parse := map_of
         [(''2023-08-01T04:24:38Z'', 1690863878000000),
          (''2023-08-01T04:24:39Z'', 1690863879000000)],
       pulls := (\<lambda>org_name repo_name page. if page = 1 then Inr [pull_555] else Inr []),
       timeline := (\<lambda>org_name repo_name num page.
         if page = 1 then
           Inr [assigned_event ''reviewerName1'' ''2023-08-01T04:24:38Z'',
                assigned_event ''reviewerName2'' ''2023-08-01T04:24:39Z'']
         else Inr [])\<rparr>"

definition object_555 :: PullRequest where
  "object_555 =
     \<lparr>url = ''https://githuburl.pull/555'', pr_number = 555, author_username = ''authorName'',
      title = ''PR title 5'',
      assignees =
        [\<lparr>username = ''reviewerName1'', assigned_on_timestamp = Some 1690863878000000\<rparr>,
         \<lparr>username = ''reviewerName2'', assigned_on_timestamp = Some 1690863879000000\<rparr>]\<rparr>"

text \<open>
  A pull request on which \<open>reviewerName2\<close> is listed as an assignee while the timeline
  holds an "assigned" event for \<open>reviewerName1\<close> only.
\<close>

definition unmatched_timeline :: "event list" where
  "unmatched_timeline =
     [created_event, assigned_event ''reviewerName1'' ''2023-08-01T02:24:38Z'']"

definition unmatched_env :: env where
  "unmatched_env =
     test_env\<lparr>
       pulls := (\<lambda>org_name repo_name page. if page = 1 then Inr [pull_123] else Inr []),
       timeline := (\<lambda>org_name repo_name num page.
         if page = 1 then Inr unmatched_timeline else Inr [])\<rparr>"

definition unmatched_object :: PullRequest where
  "unmatched_object =
     \<lparr>url = ''https://githuburl.pull/123'', pr_number = 123, author_username = ''authorName'',
      title = ''PR title 1'',
      assignees =
        [\<lparr>username = ''reviewerName1'', assigned_on_timestamp = Some 1690856678000000\<rparr>,
         \<lparr>username = ''reviewerName2'', assigned_on_timestamp = None\<rparr>]\<rparr>"

text \<open>
  The world before \<open>main\<close> runs, the arguments of the repository's integration test
  (\<open>--repo orgName/repo --category test_category_name_1 --title title --max-wait-hours 20
  --token githubTokenForApiRequest\<close>), and a command line that gives only the token.
\<close>

definition initial_world :: world where
  "initial_world = \<lparr>token = None, ticks = 0, trace = []\<rparr>"

definition test_args :: parsed_args where
  "test_args =
     \<lparr>arg_token = Some ''githubTokenForApiRequest'', arg_repo = Some ''orgName/repo'',
      arg_category = Some ''test_category_name_1'', arg_title = Some ''title'',
      arg_max_wait_hours = Some 20, arg_verbose = False\<rparr>"

definition token_only_args :: parsed_args where
  "token_only_args =
     \<lparr>arg_token = Some ''githubTokenForApiRequest'', arg_repo = None,
      arg_category = None, arg_title = None,
      arg_max_wait_hours = None, arg_verbose = False\<rparr>"

text \<open>
  The run of \<open>main\<close> on the scenario: the overdue map the listing returns, the worlds
  after the listing and after the deletion of the old discussions, and the two
  notifications.
\<close>

definition test_overdue :: overdue where
  "test_overdue =
     [(''reviewerName1'', [object_123, object_234]), (''reviewerName2'', [object_123])]"

definition listed_world :: world where
  "listed_world =
     \<lparr>token = Some ''githubTokenForApiRequest'', ticks = 4,
      trace = [GetPulls ''oppia'' ''oppia'' 1 100,
               GetTimeline ''oppia'' ''oppia'' 123 1 100,
               GetTimeline ''oppia'' ''oppia'' 123 2 100,
               GetTimeline ''oppia'' ''oppia'' 234 1 100,
               GetTimeline ''oppia'' ''oppia'' 234 2 100,
               GetPulls ''oppia'' ''oppia'' 2 100]\<rparr>"

definition deletion_trace :: "request list" where
  "deletion_trace =
     [PostCategories ''SD-13'' ''test-pending-review-notifier'',
      PostDiscussions ''SD-13'' ''test-pending-review-notifier'' ''test_category_id_1'',
      PostDeleteDiscussion ''test_discussion_id_1'']"

definition deleted_world :: world where
  "deleted_world = listed_world\<lparr>trace := trace listed_world @ deletion_trace\<rparr>"

definition test_body_1 :: string where
  "test_body_1 =
     ''reviewerName1'' @ newline @
     ''- [#123](https://githuburl.pull/123) [Waiting for the last 22 hours]'' @ newline @
     ''- [#234](https://githuburl.pull/234) [Waiting for the last 23 hours]''"

definition test_body_2 :: string where
  "test_body_2 =
     ''reviewerName2'' @ newline @
     ''- [#123](https://githuburl.pull/123) [Waiting for the last 56 hours]''"

definition creation_trace :: "request list" where
  "creation_trace =
     [PostCategories ''SD-13'' ''test-pending-review-notifier'',
      PostRepository ''SD-13'' ''test-pending-review-notifier'',
      PostCreateDiscussion ''test_repository_id'' ''test_category_id_1''
        ''Pending Reviews: @reviewerName1'' test_body_1,
      PostCategories ''SD-13'' ''test-pending-review-notifier'',
      PostRepository ''SD-13'' ''test-pending-review-notifier'',
      PostCreateDiscussion ''test_repository_id'' ''test_category_id_1''
        ''Pending Reviews: @reviewerName2'' test_body_2]"

text \<open>The scenario without the template file.\<close>

definition missing_template_env :: env where
  "missing_template_env = test_env\<lparr>path_exists := (\<lambda>path. False)\<rparr>"

text \<open>
  The scenario with another template, and a pull request with an assignee whose
  username is a \<open>pr_list\<close> token.
\<close>

definition template_env :: "string \<Rightarrow> env" where
  "template_env t = test_env\<lparr>read_file := (\<lambda>path. Inr t)\<rparr>"

definition braces_object :: PullRequest where
  "braces_object =
     \<lparr>url = ''https://githuburl.pull/123'', pr_number = 123, author_username = ''authorName'',
      title = ''PR title 1'',
      assignees = [\<lparr>username = ''{{pr_list}}'', assigned_on_timestamp = Some 1690856678000000\<rparr>]\<rparr>"

section \<open>Properties of the timeline correlation\<close>


lemma process_events_append:
  "process_events prs (xs @ ys) st =
     (case process_events prs xs st of Inl e \<Rightarrow> Inl e | Inr st1 \<Rightarrow> process_events prs ys st1)"
proof (induction xs arbitrary: st)
  case Nil
  show ?case by simp
next
  case (Cons ev xs)
  obtain d upd where st: "st = (d, upd)" by (cases st)
  show ?case unfolding st
    by (simp add: Cons.IH split: sum.splits)
qed

lemma issue_all_issue: "issue_all rs (issue r w) = issue_all (r # rs) w"
  by (simp add: issue_all_def issue_def)

lemma timeline_requests_Suc:
  "timeline_requests org_name repo_name num k (Suc n) =
     GetTimeline org_name repo_name num k 100 # timeline_requests org_name repo_name num (Suc k) n"
  by (simp add: timeline_requests_def upt_rec)

lemma timeline_loop_pages:
  assumes "\<forall>i < length pages. timeline env org_name repo_name num (k + i) = Inr (pages ! i) \<and> pages ! i \<noteq> []"
    and "timeline env org_name repo_name num (k + length pages) = Inr []"
    and "process_events (parse env) (concat pages) st = Inr st'"
  shows "timeline_loop env org_name repo_name num st k w =
           Some (Inr (snd st'),
                 issue_all (timeline_requests org_name repo_name num k (Suc (length pages))) w)"
  using assms
proof (induction pages arbitrary: k st w)
  case Nil
  then show ?case
    by (subst timeline_loop.simps) (simp add: timeline_requests_def issue_all_def issue_def)
next
  case (Cons pg pages)
  from Cons.prems(1) have pg: "timeline env org_name repo_name num k = Inr pg" "pg \<noteq> []"
    by force+
  from Cons.prems(3) obtain st1 where
    st1: "process_events (parse env) pg st = Inr st1"
    and rest: "process_events (parse env) (concat pages) st1 = Inr st'"
    by (auto simp: process_events_append split: sum.splits)
  have later: "\<forall>i < length pages. timeline env org_name repo_name num (Suc k + i) = Inr (pages ! i) \<and> pages ! i \<noteq> []"
  proof (intro allI impI)
    fix i assume "i < length pages"
    then have "Suc i < length (pg # pages)" by simp
    from Cons.prems(1)[rule_format, OF this] show "timeline env org_name repo_name num (Suc k + i) = Inr (pages ! i) \<and> pages ! i \<noteq> []"
      by simp
  qed
  have last: "timeline env org_name repo_name num (Suc k + length pages) = Inr []"
    using Cons.prems(2) by simp
  have "timeline_loop env org_name repo_name num st k w =
          timeline_loop env org_name repo_name num st1 (Suc k)
            (issue (GetTimeline org_name repo_name num k 100) w)"
    by (subst timeline_loop.simps) (simp add: pg st1)
  also have "\<dots> = Some (Inr (snd st'),
        issue_all (timeline_requests org_name repo_name num (Suc k) (Suc (length pages)))
          (issue (GetTimeline org_name repo_name num k 100) w))"
    by (rule Cons.IH[OF later last rest])
  finally show ?case
    by (simp add: issue_all_issue timeline_requests_Suc[of _ _ _ k])
qed


lemma timeline_loop_result:
  assumes "\<forall>i < length pages. timeline env org_name repo_name num (k + i) = Inr (pages ! i) \<and> pages ! i \<noteq> []"
    and "timeline env org_name repo_name num (k + length pages) = Inr []"
  shows "map_option fst (timeline_loop env org_name repo_name num st k w) =
           Some (case process_events (parse env) (concat pages) st of
                   Inl e \<Rightarrow> Inl e | Inr st' \<Rightarrow> Inr (snd st'))"
  using assms
proof (induction pages arbitrary: k st w)
  case Nil
  then show ?case
    by (subst timeline_loop.simps) simp
next
  case (Cons pg pages)
  from Cons.prems(1) have pg: "timeline env org_name repo_name num k = Inr pg" "pg \<noteq> []"
    by force+
  have later: "\<forall>i < length pages. timeline env org_name repo_name num (Suc k + i) = Inr (pages ! i) \<and> pages ! i \<noteq> []"
  proof (intro allI impI)
    fix i assume "i < length pages"
    then have "Suc i < length (pg # pages)" by simp
    from Cons.prems(1)[rule_format, OF this] show "timeline env org_name repo_name num (Suc k + i) = Inr (pages ! i) \<and> pages ! i \<noteq> []"
      by simp
  qed
  have last: "timeline env org_name repo_name num (Suc k + length pages) = Inr []"
    using Cons.prems(2) by simp
  show ?case
  proof (cases "process_events (parse env) pg st")
    case (Inl e)
    then show ?thesis
      by (subst timeline_loop.simps) (simp add: pg process_events_append)
  next
    case (Inr st1)
    have "timeline_loop env org_name repo_name num st k w =
          timeline_loop env org_name repo_name num st1 (Suc k)
            (issue (GetTimeline org_name repo_name num k 100) w)"
      by (subst timeline_loop.simps) (simp add: pg Inr)
    then show ?thesis
      using Cons.IH[OF later last, of st1] by (simp add: process_events_append Inr)
  qed
qed

lemma process_events_not_assigned:
  "\<forall>ev \<in> set evs. event_kind ev \<noteq> ''assigned'' \<Longrightarrow> process_events prs evs st = Inr st"
proof (induction evs)
  case Nil
  show ?case by simp
next
  case (Cons ev evs)
  obtain d upd where st: "st = (d, upd)" by (cases st)
  from Cons show ?case by (simp add: st)
qed

lemma process_events_filter:
  "process_events prs evs st =
     process_events prs (filter (\<lambda>ev. event_kind ev = ''assigned'') evs) st"
proof (induction evs arbitrary: st)
  case Nil
  show ?case by simp
next
  case (Cons ev evs)
  obtain d upd where st: "st = (d, upd)" by (cases st)
  show ?case unfolding st
    by (simp add: Cons.IH split: sum.splits)
qed

lemma stamp_assignees_Inr:
  "stamp_assignees prs ev as = Inr as' \<Longrightarrow>
     as' = map (\<lambda>a. if assignee_login ev = Some (login a)
                     then a\<lparr>created_at := Option.bind (event_created_at ev) prs\<rparr> else a) as"
  by (induction as arbitrary: as') (auto split: option.splits if_splits sum.splits)

lemma process_events_Inr:
  "process_events prs evs (d, upd) = Inr (d', upd') \<Longrightarrow>
     d' = d\<lparr>assignees_key := map (\<lambda>a. a\<lparr>created_at := recorded prs evs a\<rparr>) (assignees_key d)\<rparr>"
proof (induction evs arbitrary: d upd)
  case Nil
  then show ?case by (simp add: recorded_def matching_def map_idI)
next
  case (Cons ev evs)
  show ?case
  proof (cases "event_kind ev = ''assigned''")
    case False
    with Cons.prems have "process_events prs evs (d, upd) = Inr (d', upd')" by simp
    from Cons.IH[OF this] False show ?thesis
      by (simp add: recorded_def matching_def)
  next
    case True
    with Cons.prems obtain as1 where
      as1: "stamp_assignees prs ev (assignees_key d) = Inr as1"
      and rest: "process_events prs evs (d\<lparr>assignees_key := as1\<rparr>, Some (d\<lparr>assignees_key := as1\<rparr>)) = Inr (d', upd')"
      by (auto simp: get_pull_request_dict_with_timestamp_def split: sum.splits)
    note eq = stamp_assignees_Inr[OF as1]
    from Cons.IH[OF rest] have "d' = d\<lparr>assignees_key := map (\<lambda>a. a\<lparr>created_at := recorded prs evs a\<rparr>) as1\<rparr>"
      by simp
    moreover have "map (\<lambda>a. a\<lparr>created_at := recorded prs evs a\<rparr>) as1 =
        map (\<lambda>a. a\<lparr>created_at := recorded prs (ev # evs) a\<rparr>) (assignees_key d)"
      unfolding eq using True
      by (auto simp: recorded_def matching_def)
    ultimately show ?thesis by simp
  qed
qed

lemma process_events_updated:
  "process_events prs evs (d, upd) = Inr (d', upd') \<Longrightarrow>
     upd' = (if \<exists>ev \<in> set evs. event_kind ev = ''assigned'' then Some d' else upd)"
proof (induction evs arbitrary: d upd)
  case Nil
  then show ?case by simp
next
  case (Cons ev evs)
  show ?case
  proof (cases "event_kind ev = ''assigned''")
    case False
    with Cons.prems have "process_events prs evs (d, upd) = Inr (d', upd')" by simp
    from Cons.IH[OF this] False show ?thesis by simp
  next
    case True
    with Cons.prems obtain d1 where
      rest: "process_events prs evs (d1, Some d1) = Inr (d', upd')"
      by (auto split: sum.splits)
    from Cons.IH[OF rest] have "upd' = Some d' \<or> upd' = Some d1" by (simp split: if_splits)
    moreover have "process_events prs evs (d1, Some d1) = Inr (d', upd') \<Longrightarrow> upd' = Some d1 \<Longrightarrow> \<not> (\<exists>ev \<in> set evs. event_kind ev = ''assigned'') \<Longrightarrow> d' = d1"
      by (simp add: process_events_not_assigned)
    ultimately show ?thesis using True Cons.IH[OF rest] rest
      by (auto split: if_splits)
  qed
qed


text \<open>
  C4: when the timeline of a pull request has no event of kind "assigned" (the pages
  fetched before the empty one hold none; in particular when the first page is empty),
  \<open>get_pull_request_object_from_dict\<close> fetches the pages and then raises
  \<open>UnboundLocalError\<close>, a \<open>NameError\<close>, on \<open>updated_pr_dict\<close>; no \<open>PullRequest\<close>
  object is built.
\<close>

theorem no_assigned_event_raises_NameError:
  assumes "token w = Some tk"
    and "\<forall>i < length pages.
           timeline env org_name repo_name (number d) (1 + i) = Inr (pages ! i) \<and> pages ! i \<noteq> []"
    and "timeline env org_name repo_name (number d) (1 + length pages) = Inr []"
    and "\<forall>ev \<in> set (concat pages). event_kind ev \<noteq> ''assigned''"
  shows "get_pull_request_object_from_dict env org_name repo_name d w =
           Some (Inl (UnboundLocalError ''updated_pr_dict''),
                 issue_all (timeline_requests org_name repo_name (number d) 1
                              (Suc (length pages))) w)
         \<and> is_NameError (UnboundLocalError ''updated_pr_dict'')"
proof -
  have "process_events (parse env) (concat pages) (d, None) = Inr (d, None)"
    using assms(4) by (rule process_events_not_assigned)
  from timeline_loop_pages[OF assms(2) assms(3) this]
  show ?thesis using assms(1)
    by (simp add: get_pull_request_object_from_dict_def)
qed

theorem no_assigned_event_raises_NameError_witness:
  "get_pull_request_object_from_dict test_env ''oppia'' ''oppia'' pull_999 test_world =
     Some (Inl (UnboundLocalError ''updated_pr_dict''),
           test_world\<lparr>trace := [GetTimeline ''oppia'' ''oppia'' 999 1 100,
                                 GetTimeline ''oppia'' ''oppia'' 999 2 100]\<rparr>)"
  using no_assigned_event_raises_NameError
    [of test_world "''my_github_token''" "[[created_event]]" test_env "''oppia''" "''oppia''" pull_999]
  by (simp add: test_world_def test_env_def pull_999_def created_event_def issue_all_def
      timeline_requests_def upt_rec)

lemma stamp_assignees_parsed:
  "stamp_assignees prs ev as = Inr as' \<Longrightarrow> a \<in> set as \<Longrightarrow>
   assignee_login ev = Some (login a) \<Longrightarrow>
   \<exists>s t. event_created_at ev = Some s \<and> prs s = Some t"
  by (induction as arbitrary: as') (auto split: option.splits if_splits sum.splits)

lemma stamp_assignees_logins:
  "stamp_assignees prs ev as = Inr as' \<Longrightarrow> map login as' = map login as"
  by (induction as arbitrary: as') (auto split: option.splits if_splits sum.splits)

lemma process_events_parsed:
  "process_events prs evs (d, upd) = Inr st' \<Longrightarrow> ev \<in> set evs \<Longrightarrow>
   event_kind ev = ''assigned'' \<Longrightarrow> l \<in> login ` set (assignees_key d) \<Longrightarrow>
   assignee_login ev = Some l \<Longrightarrow>
   \<exists>s t. event_created_at ev = Some s \<and> prs s = Some t"
proof (induction evs arbitrary: d upd)
  case Nil
  then show ?case by simp
next
  case (Cons e evs)
  show ?case
  proof (cases "event_kind e = ''assigned''")
    case False
    with Cons.prems have "process_events prs evs (d, upd) = Inr st'" "ev \<in> set evs"
      by auto
    from Cons.IH[OF this Cons.prems(3,4,5)] show ?thesis .
  next
    case True
    with Cons.prems(1) obtain as1 where
      as1: "stamp_assignees prs e (assignees_key d) = Inr as1"
      and rest: "process_events prs evs (d\<lparr>assignees_key := as1\<rparr>, Some (d\<lparr>assignees_key := as1\<rparr>)) = Inr st'"
      by (auto simp: get_pull_request_dict_with_timestamp_def split: sum.splits)
    show ?thesis
    proof (cases "ev = e")
      case True
      from Cons.prems(4) obtain a where "a \<in> set (assignees_key d)" "l = login a" by auto
      with stamp_assignees_parsed[OF as1, of a] Cons.prems(5) True show ?thesis by simp
    next
      case False
      with Cons.prems(2) have in_rest: "ev \<in> set evs" by simp
      have "login ` set as1 = login ` set (assignees_key d)"
        using stamp_assignees_logins[OF as1] by (metis set_map)
      with Cons.prems(4) have "l \<in> login ` set (assignees_key (d\<lparr>assignees_key := as1\<rparr>))"
        by simp
      from Cons.IH[OF rest in_rest Cons.prems(3) this Cons.prems(5)] show ?thesis .
    qed
  qed
qed

lemma recorded_parsed:
  assumes "process_events prs evs (d, upd) = Inr st'"
    and "a \<in> set (assignees_key d)"
    and "matching (login a) evs \<noteq> []"
  shows "\<exists>t. recorded prs evs a = Some t"
proof -
  let ?ev = "last (matching (login a) evs)"
  from assms(3) have "?ev \<in> set (matching (login a) evs)" by (rule last_in_set)
  then have ev: "?ev \<in> set evs" "event_kind ?ev = ''assigned''" "assignee_login ?ev = Some (login a)"
    by (auto simp: matching_def)
  from assms(2) have "login a \<in> login ` set (assignees_key d)" by simp
  from process_events_parsed[OF assms(1) ev(1) ev(2) this ev(3)]
  obtain s t where "event_created_at ?ev = Some s" "prs s = Some t" by blast
  with assms(3) show ?thesis by (simp add: recorded_def)
qed

lemma stamp_assignees_succeeds:
  assumes "assignee_login ev = Some l"
    and "l \<in> login ` set as \<longrightarrow> (\<exists>s t. event_created_at ev = Some s \<and> prs s = Some t)"
  shows "\<exists>as'. stamp_assignees prs ev as = Inr as'"
  using assms(2)
proof (induction as)
  case Nil
  show ?case by simp
next
  case (Cons a as)
  from Cons.prems have "l \<in> login ` set as \<longrightarrow> (\<exists>s t. event_created_at ev = Some s \<and> prs s = Some t)"
    by simp
  from Cons.IH[OF this] obtain as' where rest: "stamp_assignees prs ev as = Inr as'" by blast
  show ?case
  proof (cases "l = login a")
    case True
    with Cons.prems obtain s t where "event_created_at ev = Some s" "prs s = Some t" by auto
    with True rest assms(1) show ?thesis by simp
  next
    case False
    with rest assms(1) show ?thesis by simp
  qed
qed

lemma process_events_succeeds:
  assumes "\<forall>ev \<in> set evs. event_kind ev = ''assigned'' \<longrightarrow>
             (\<exists>l. assignee_login ev = Some l \<and>
                (l \<in> login ` set (assignees_key d) \<longrightarrow>
                   (\<exists>s t. event_created_at ev = Some s \<and> prs s = Some t)))"
  shows "\<exists>st'. process_events prs evs (d, upd) = Inr st'"
  using assms
proof (induction evs arbitrary: d upd)
  case Nil
  show ?case by simp
next
  case (Cons ev evs)
  show ?case
  proof (cases "event_kind ev = ''assigned''")
    case False
    from Cons.prems have "\<forall>ev \<in> set evs. event_kind ev = ''assigned'' \<longrightarrow>
             (\<exists>l. assignee_login ev = Some l \<and>
                (l \<in> login ` set (assignees_key d) \<longrightarrow>
                   (\<exists>s t. event_created_at ev = Some s \<and> prs s = Some t)))" by simp
    from Cons.IH[OF this, of upd] False show ?thesis by simp
  next
    case True
    with Cons.prems obtain l where l: "assignee_login ev = Some l"
      "l \<in> login ` set (assignees_key d) \<longrightarrow> (\<exists>s t. event_created_at ev = Some s \<and> prs s = Some t)"
      by auto
    from stamp_assignees_succeeds[OF l] obtain as1 where
      as1: "stamp_assignees prs ev (assignees_key d) = Inr as1" by blast
    have "login ` set as1 = login ` set (assignees_key d)"
      using stamp_assignees_logins[OF as1] by (metis set_map)
    with Cons.prems have "\<forall>ev \<in> set evs. event_kind ev = ''assigned'' \<longrightarrow>
             (\<exists>l. assignee_login ev = Some l \<and>
                (l \<in> login ` set (assignees_key (d\<lparr>assignees_key := as1\<rparr>)) \<longrightarrow>
                   (\<exists>s t. event_created_at ev = Some s \<and> prs s = Some t)))" by simp
    from Cons.IH[OF this, of "Some (d\<lparr>assignees_key := as1\<rparr>)"] True as1 show ?thesis
      by (simp add: get_pull_request_dict_with_timestamp_def)
  qed
qed

text \<open>
  C3: timeline correlation on \<open>get_pull_request_object_from_dict\<close>. Let the timeline
  pages \<open>1, \<dots>, n\<close> of the pull request be non-empty and page \<open>n + 1\<close> empty, let
  them hold at least one "assigned" event, and let every "assigned" event name an
  assignee and, when that login is one of the pull request's assignees, carry a
  \<open>created_at\<close> that parses. Then the function requests exactly the pages
  \<open>1, \<dots>, n + 1\<close> in ascending order and returns the pull request in which every
  assignee carries the timestamp \<open>recorded\<close> gives over the events in processing
  order: an assignee whose login no "assigned" event names keeps what it had, and any
  other one carries the parsed \<open>created_at\<close> of the last "assigned" event for its
  login (last write wins). Events of another kind have no part in the result.
\<close>

theorem timeline_last_write_wins:
  assumes "token w = Some tk"
    and "\<forall>i < length pages.
           timeline env org_name repo_name (number d) (1 + i) = Inr (pages ! i) \<and> pages ! i \<noteq> []"
    and "timeline env org_name repo_name (number d) (1 + length pages) = Inr []"
    and "\<forall>ev \<in> set (concat pages). event_kind ev = ''assigned'' \<longrightarrow>
           (\<exists>l. assignee_login ev = Some l \<and>
              (l \<in> login ` set (assignees_key d) \<longrightarrow>
                 (\<exists>s t. event_created_at ev = Some s \<and> parse env s = Some t)))"
    and "\<exists>ev \<in> set (concat pages). event_kind ev = ''assigned''"
  shows "\<exists>p. get_pull_request_object_from_dict env org_name repo_name d w =
             Some (Inr p,
                   issue_all (timeline_requests org_name repo_name (number d) 1
                                (Suc (length pages))) w) \<and>
           p = from_github_response
                 (d\<lparr>assignees_key :=
                      map (\<lambda>a. a\<lparr>created_at := recorded (parse env) (concat pages) a\<rparr>)
                        (assignees_key d)\<rparr>) \<and>
           length (assignees p) = length (assignees_key d) \<and>
           (\<forall>i < length (assignees_key d).
              username (assignees p ! i) = login (assignees_key d ! i) \<and>
              (if matching (login (assignees_key d ! i)) (concat pages) = []
               then assigned_on_timestamp (assignees p ! i) = created_at (assignees_key d ! i)
               else \<exists>s t. event_created_at
                             (last (matching (login (assignees_key d ! i)) (concat pages))) = Some s \<and>
                          parse env s = Some t \<and>
                          assigned_on_timestamp (assignees p ! i) = Some t))"
proof -
  let ?evs = "concat pages"
  let ?upd = "d\<lparr>assignees_key :=
                 map (\<lambda>a. a\<lparr>created_at := recorded (parse env) ?evs a\<rparr>) (assignees_key d)\<rparr>"
  let ?p = "from_github_response ?upd"
  from process_events_succeeds[OF assms(4), of None] obtain d' upd' where
    pe: "process_events (parse env) ?evs (d, None) = Inr (d', upd')" by force
  from process_events_updated[OF pe] assms(5) have upd': "upd' = Some d'" by simp
  from process_events_Inr[OF pe] have d': "d' = ?upd" .
  from timeline_loop_pages[OF assms(2) assms(3) pe, of w] upd' d'
  have loop: "timeline_loop env org_name repo_name (number d) (d, None) 1 w =
      Some (Inr (Some ?upd),
            issue_all (timeline_requests org_name repo_name (number d) 1 (Suc (length pages))) w)"
    by simp
  have 1: "get_pull_request_object_from_dict env org_name repo_name d w =
             Some (Inr ?p,
                   issue_all (timeline_requests org_name repo_name (number d) 1
                                (Suc (length pages))) w)"
    using assms(1) loop by (simp add: get_pull_request_object_from_dict_def)
  have 2: "length (assignees ?p) = length (assignees_key d)"
    by (simp add: from_github_response_def)
  have 3: "\<forall>i < length (assignees_key d).
              username (assignees ?p ! i) = login (assignees_key d ! i) \<and>
              (if matching (login (assignees_key d ! i)) ?evs = []
               then assigned_on_timestamp (assignees ?p ! i) = created_at (assignees_key d ! i)
               else \<exists>s t. event_created_at
                             (last (matching (login (assignees_key d ! i)) ?evs)) = Some s \<and>
                          parse env s = Some t \<and>
                          assigned_on_timestamp (assignees ?p ! i) = Some t)"
  proof (intro allI impI)
    fix i assume i: "i < length (assignees_key d)"
    let ?a = "assignees_key d ! i"
    have a: "?a \<in> set (assignees_key d)" using i by simp
    have ai: "assignees ?p ! i =
        \<lparr>username = login ?a, assigned_on_timestamp = recorded (parse env) ?evs ?a\<rparr>"
      using i by (simp add: from_github_response_def assignee_from_github_response_def)
    show "username (assignees ?p ! i) = login ?a \<and>
              (if matching (login ?a) ?evs = []
               then assigned_on_timestamp (assignees ?p ! i) = created_at ?a
               else \<exists>s t. event_created_at (last (matching (login ?a) ?evs)) = Some s \<and>
                          parse env s = Some t \<and>
                          assigned_on_timestamp (assignees ?p ! i) = Some t)"
    proof (cases "matching (login ?a) ?evs = []")
      case True
      with ai show ?thesis by (simp add: recorded_def)
    next
      case False
      from recorded_parsed[OF pe a False] obtain t where
        t: "recorded (parse env) ?evs ?a = Some t" by blast
      with False obtain s where
        "event_created_at (last (matching (login ?a) ?evs)) = Some s" "parse env s = Some t"
        by (auto simp: recorded_def Option.bind_eq_Some_conv)
      with False ai t show ?thesis by simp
    qed
  qed
  from 1 2 3 show ?thesis by blast
qed

theorem timeline_last_write_wins_witness:
  "\<exists>p. get_pull_request_object_from_dict reassigned_env ''oppia'' ''oppia'' pull_123 test_world =
          Some (Inr p,
                test_world\<lparr>trace := [GetTimeline ''oppia'' ''oppia'' 123 1 100,
                                      GetTimeline ''oppia'' ''oppia'' 123 2 100,
                                      GetTimeline ''oppia'' ''oppia'' 123 3 100]\<rparr>) \<and>
        assignees p =
          [\<lparr>username = ''reviewerName1'', assigned_on_timestamp = Some 1690867478000000\<rparr>,
           \<lparr>username = ''reviewerName2'', assigned_on_timestamp = None\<rparr>]"
proof -
  have h1: "token test_world = Some ''my_github_token''"
    by (simp add: test_world_def)
  have h2: "\<forall>i < length reassigned_pages.
      timeline reassigned_env ''oppia'' ''oppia'' (number pull_123) (1 + i) =
        Inr (reassigned_pages ! i) \<and>
      reassigned_pages ! i \<noteq> []"
    by (simp add: reassigned_env_def reassigned_pages_def less_Suc_eq)
  have h3: "timeline reassigned_env ''oppia'' ''oppia'' (number pull_123)
              (1 + length reassigned_pages) = Inr []"
    by (simp add: reassigned_env_def reassigned_pages_def)
  have h4: "\<forall>ev \<in> set (concat reassigned_pages). event_kind ev = ''assigned'' \<longrightarrow>
           (\<exists>l. assignee_login ev = Some l \<and>
              (l \<in> login ` set (assignees_key pull_123) \<longrightarrow>
                 (\<exists>s t. event_created_at ev = Some s \<and> parse reassigned_env s = Some t)))"
    by (simp add: reassigned_pages_def reassigned_env_def test_env_def assigned_event_def
        created_event_def test_parse_def)
  have h5: "\<exists>ev \<in> set (concat reassigned_pages). event_kind ev = ''assigned''"
    by (simp add: reassigned_pages_def assigned_event_def)
  from timeline_last_write_wins[OF h1 h2 h3 h4 h5]
  obtain p where
    r: "get_pull_request_object_from_dict reassigned_env ''oppia'' ''oppia'' pull_123 test_world =
          Some (Inr p, issue_all (timeline_requests ''oppia'' ''oppia'' (number pull_123) 1
                                (Suc (length reassigned_pages))) test_world)"
    and p: "p = from_github_response
                 (pull_123\<lparr>assignees_key :=
                      map (\<lambda>a. a\<lparr>created_at := recorded (parse reassigned_env)
                                   (concat reassigned_pages) a\<rparr>)
                        (assignees_key pull_123)\<rparr>)"
    by blast
  have tr: "issue_all (timeline_requests ''oppia'' ''oppia'' (number pull_123) 1
                                (Suc (length reassigned_pages))) test_world =
        test_world\<lparr>trace := [GetTimeline ''oppia'' ''oppia'' 123 1 100,
                                      GetTimeline ''oppia'' ''oppia'' 123 2 100,
                                      GetTimeline ''oppia'' ''oppia'' 123 3 100]\<rparr>"
    by (simp add: issue_all_def timeline_requests_def reassigned_pages_def pull_123_def
        test_world_def upt_rec)
  have as: "assignees p =
          [\<lparr>username = ''reviewerName1'', assigned_on_timestamp = Some 1690867478000000\<rparr>,
           \<lparr>username = ''reviewerName2'', assigned_on_timestamp = None\<rparr>]"
    unfolding p
    by (simp add: from_github_response_def assignee_from_github_response_def pull_123_def
        test_assignees_def recorded_def matching_def reassigned_pages_def reassigned_env_def
        test_env_def created_event_def assigned_event_def test_parse_def)
  from r tr as show ?thesis by simp
qed

section \<open>Properties of the page loops\<close>


lemma issue_all_Nil: "issue_all [] w = w"
  by (simp add: issue_all_def)

lemma issue_all_append: "issue_all ys (issue_all xs w) = issue_all (xs @ ys) w"
  by (simp add: issue_all_def)

lemma issue_issue_all: "issue r w = issue_all [r] w"
  by (simp add: issue_all_def issue_def)

lemma issue_all_fields:
  "token (issue_all rs w) = token w" "ticks (issue_all rs w) = ticks w"
  "trace (issue_all rs w) = trace w @ rs"
  by (simp_all add: issue_all_def)

lemma timeline_loop_frame:
  assumes "timeline_loop env org_name repo_name num st k w = Some (res, w')"
  shows "\<exists>rs. w' = issue_all rs w \<and>
              (\<forall>x \<in> set rs. \<exists>p. x = GetTimeline org_name repo_name num p 100) \<and>
              (\<forall>v. timeline_loop env org_name repo_name num st k v = Some (res, issue_all rs v))"
proof -
  have "\<exists>rs. snd y = issue_all rs w \<and>
              (\<forall>x \<in> set rs. \<exists>p. x = GetTimeline org_name repo_name num p 100) \<and>
              (\<forall>v. timeline_loop env org_name repo_name num st k v = Some (fst y, issue_all rs v))"
    if "timeline_loop env org_name repo_name num st k w = Some y" for y
    using that
  proof (induction env org_name repo_name num st k w y rule: timeline_loop.raw_induct[rotated 1, consumes 1])
    case (1 loop env org_name repo_name num st k w y)
    let ?r = "GetTimeline org_name repo_name num k 100"
    show ?case
    proof (cases "timeline env org_name repo_name num k")
      case (Inl e)
      with 1(2) have y: "y = (Inl e, issue ?r w)" by simp
      have "\<forall>v. timeline_loop env org_name repo_name num st k v = Some (Inl e, issue_all [?r] v)"
        by (subst timeline_loop.simps) (simp add: Inl issue_issue_all)
      then show ?thesis unfolding y
        by (intro exI[of _ "[?r]"]) (simp add: issue_issue_all)
    next
      case (Inr sub)
      show ?thesis
      proof (cases "sub = []")
        case True
        with 1(2) Inr have y: "y = (Inr (snd st), issue ?r w)" by simp
        have "\<forall>v. timeline_loop env org_name repo_name num st k v = Some (Inr (snd st), issue_all [?r] v)"
          by (subst timeline_loop.simps) (simp add: Inr True issue_issue_all)
        then show ?thesis unfolding y
          by (intro exI[of _ "[?r]"]) (simp add: issue_issue_all)
      next
        case False
        show ?thesis
        proof (cases "process_events (parse env) sub st")
          case (Inl e)
          with 1(2) Inr False have y: "y = (Inl e, issue ?r w)" by simp
          have "\<forall>v. timeline_loop env org_name repo_name num st k v = Some (Inl e, issue_all [?r] v)"
            by (subst timeline_loop.simps) (simp add: Inr Inl False issue_issue_all)
          then show ?thesis unfolding y
            by (intro exI[of _ "[?r]"]) (simp add: issue_issue_all)
        next
          case st1: (Inr st1)
          with 1(2) Inr False have rec: "loop env org_name repo_name num st1 (k + 1) (issue ?r w) = Some y"
            by simp
          from 1(1)[OF rec] obtain rs where
            rs: "snd y = issue_all rs (issue ?r w)"
              "\<forall>x \<in> set rs. \<exists>p. x = GetTimeline org_name repo_name num p 100"
              "\<forall>v. timeline_loop env org_name repo_name num st1 (k + 1) v = Some (fst y, issue_all rs v)"
            by blast
          have "\<forall>v. timeline_loop env org_name repo_name num st k v = Some (fst y, issue_all (?r # rs) v)"
          proof
            fix v
            have "timeline_loop env org_name repo_name num st k v =
                  timeline_loop env org_name repo_name num st1 (k + 1) (issue ?r v)"
              by (subst timeline_loop.simps) (simp add: Inr False st1)
            also have "\<dots> = Some (fst y, issue_all rs (issue ?r v))" using rs(3) by blast
            finally show "timeline_loop env org_name repo_name num st k v = Some (fst y, issue_all (?r # rs) v)"
              by (simp add: issue_all_issue)
          qed
          with rs(1,2) show ?thesis
            by (intro exI[of _ "?r # rs"]) (simp add: issue_all_issue)
        qed
      qed
    qed
  qed
  from this[OF assms] show ?thesis by simp
qed


lemma object_frame:
  assumes "get_pull_request_object_from_dict env org_name repo_name d w = Some (res, w')"
  shows "\<exists>rs. w' = issue_all rs w \<and> (\<forall>x \<in> set rs. \<not> is_GetPulls x) \<and>
              (\<forall>v. token v = token w \<longrightarrow>
                 get_pull_request_object_from_dict env org_name repo_name d v =
                   Some (res, issue_all rs v))"
proof (cases "token w")
  case None
  with assms have "res = Inl not_initialized" "w' = w"
    by (simp_all add: get_pull_request_object_from_dict_def)
  with None show ?thesis
    by (intro exI[of _ "[]"]) (simp add: issue_all_Nil get_pull_request_object_from_dict_def)
next
  case (Some tk)
  with assms obtain lres where
    loop: "timeline_loop env org_name repo_name (number d) (d, None) 1 w = Some (lres, w')"
    by (auto simp: get_pull_request_object_from_dict_def split: option.splits sum.splits prod.splits)
  from timeline_loop_frame[OF loop] obtain rs where
    rs: "w' = issue_all rs w"
      "\<forall>x \<in> set rs. \<exists>p. x = GetTimeline org_name repo_name (number d) p 100"
      "\<forall>v. timeline_loop env org_name repo_name (number d) (d, None) 1 v = Some (lres, issue_all rs v)"
    by blast
  have res: "Some (res, w') = (case lres of Inl e \<Rightarrow> Some (Inl e, w')
      | Inr None \<Rightarrow> Some (Inl (UnboundLocalError ''updated_pr_dict''), w')
      | Inr (Some upd) \<Rightarrow> Some (Inr (from_github_response upd), w'))"
    using assms Some loop
    by (simp add: get_pull_request_object_from_dict_def split: option.splits sum.splits)
  have "\<forall>v. token v = token w \<longrightarrow>
                 get_pull_request_object_from_dict env org_name repo_name d v =
                   Some (res, issue_all rs v)"
  proof (intro allI impI)
    fix v :: world assume "token v = token w"
    with Some rs(3) res show "get_pull_request_object_from_dict env org_name repo_name d v =
                   Some (res, issue_all rs v)"
      by (auto simp: get_pull_request_object_from_dict_def split: option.splits sum.splits)
  qed
  moreover from rs(2) have "\<forall>x \<in> set rs. \<not> is_GetPulls x" by auto
  ultimately show ?thesis using rs(1) by blast
qed

lemma objects_frame:
  "pull_request_objects env org_name repo_name ds w = Some (res, w') \<Longrightarrow>
   \<exists>rs. w' = issue_all rs w \<and> (\<forall>x \<in> set rs. \<not> is_GetPulls x) \<and>
        (\<forall>v. token v = token w \<longrightarrow>
           pull_request_objects env org_name repo_name ds v = Some (res, issue_all rs v))"
proof (induction ds arbitrary: w res w')
  case Nil
  then show ?case by (intro exI[of _ "[]"]) (auto simp: issue_all_Nil)
next
  case (Cons d ds)
  from Cons.prems obtain r1 w1 where
    first: "get_pull_request_object_from_dict env org_name repo_name d w = Some (r1, w1)"
    by (cases "get_pull_request_object_from_dict env org_name repo_name d w") auto
  from object_frame[OF first] obtain rs1 where
    rs1: "w1 = issue_all rs1 w" "\<forall>x \<in> set rs1. \<not> is_GetPulls x"
      "\<forall>v. token v = token w \<longrightarrow>
          get_pull_request_object_from_dict env org_name repo_name d v = Some (r1, issue_all rs1 v)"
    by blast
  show ?case
  proof (cases r1)
    case (Inl e)
    with Cons.prems first have "res = Inl e" "w' = w1" by simp_all
    with rs1 Inl show ?thesis
      by (intro exI[of _ rs1]) simp
  next
    case (Inr p)
    with Cons.prems first obtain r2 w2 where
      second: "pull_request_objects env org_name repo_name ds w1 = Some (r2, w2)"
      by (cases "pull_request_objects env org_name repo_name ds w1") auto
    from Cons.IH[OF second] obtain rs2 where
      rs2: "w2 = issue_all rs2 w1" "\<forall>x \<in> set rs2. \<not> is_GetPulls x"
        "\<forall>v. token v = token w1 \<longrightarrow>
            pull_request_objects env org_name repo_name ds v = Some (r2, issue_all rs2 v)"
      by blast
    have res: "res = (case r2 of Inl e \<Rightarrow> Inl e | Inr ps \<Rightarrow> Inr (p # ps))" "w' = w2"
      using Cons.prems first second Inr by (auto split: sum.splits)
    have "\<forall>v. token v = token w \<longrightarrow>
           pull_request_objects env org_name repo_name (d # ds) v =
             Some (res, issue_all (rs1 @ rs2) v)"
    proof (intro allI impI)
      fix v :: world assume tv: "token v = token w"
      with rs1(3) have a: "get_pull_request_object_from_dict env org_name repo_name d v = Some (r1, issue_all rs1 v)"
        by blast
      have "token (issue_all rs1 v) = token w1" using tv rs1(1) by (simp add: issue_all_fields)
      with rs2(3) have b: "pull_request_objects env org_name repo_name ds (issue_all rs1 v) = Some (r2, issue_all rs2 (issue_all rs1 v))"
        by blast
      show "pull_request_objects env org_name repo_name (d # ds) v =
             Some (res, issue_all (rs1 @ rs2) v)"
        using a b Inr res(1) by (simp add: issue_all_append split: sum.splits)
    qed
    with rs1 rs2 res(2) show ?thesis
      by (intro exI[of _ "rs1 @ rs2"]) (auto simp: issue_all_append)
  qed
qed

lemma pull_request_objects_append:
  "pull_request_objects env org_name repo_name (xs @ ys) w =
     (case pull_request_objects env org_name repo_name xs w of
        None \<Rightarrow> None
      | Some (Inl e, w1) \<Rightarrow> Some (Inl e, w1)
      | Some (Inr ps, w1) \<Rightarrow>
          (case pull_request_objects env org_name repo_name ys w1 of
             None \<Rightarrow> None
           | Some (Inl e, w2) \<Rightarrow> Some (Inl e, w2)
           | Some (Inr qs, w2) \<Rightarrow> Some (Inr (ps @ qs), w2)))"
  by (induction xs arbitrary: w) (auto split: option.splits sum.splits prod.splits)

lemma review_pull_requests_append:
  "review_pull_requests env h (xs @ ys) m w =
     (case review_pull_requests env h xs m w of
        (Inl e, w1) \<Rightarrow> (Inl e, w1)
      | (Inr m1, w1) \<Rightarrow> review_pull_requests env h ys m1 w1)"
  by (induction xs arbitrary: m w) (auto split: sum.splits prod.splits)

lemma review_assignees_frame:
  "ticks v = ticks w \<Longrightarrow>
   review_assignees env h p as m v =
     (fst (review_assignees env h p as m w),
      v\<lparr>ticks := ticks (snd (review_assignees env h p as m w))\<rparr>)"
proof (induction as arbitrary: m v w)
  case Nil
  then show ?case by simp
next
  case (Cons a as)
  have t: "ticks (tick v) = ticks (tick w)" using Cons.prems by (simp add: tick_def)
  have u: "\<And>x. (tick v)\<lparr>ticks := x\<rparr> = v\<lparr>ticks := x\<rparr>" by (simp add: tick_def)
  have s: "tick v = v\<lparr>ticks := ticks (tick w)\<rparr>" using Cons.prems by (simp add: tick_def)
  show ?case
    using Cons.prems Cons.IH[OF t] u s
    by (simp split: option.splits sum.splits)
qed

lemma review_pull_requests_frame:
  "ticks v = ticks w \<Longrightarrow>
   review_pull_requests env h ps m v =
     (fst (review_pull_requests env h ps m w),
      v\<lparr>ticks := ticks (snd (review_pull_requests env h ps m w))\<rparr>)"
proof (induction ps arbitrary: m v w)
  case Nil
  then show ?case by simp
next
  case (Cons p ps)
  show ?case
  proof (cases "is_reviewer_assigned p")
    case False
    then show ?thesis using Cons.IH[OF Cons.prems] by simp
  next
    case True
    obtain r1 w1 where w1: "review_assignees env h p (assignees p) m w = (r1, w1)"
      by (cases "review_assignees env h p (assignees p) m w")
    from review_assignees_frame[OF Cons.prems, of env h p "assignees p" m] w1
    have v1: "review_assignees env h p (assignees p) m v = (r1, v\<lparr>ticks := ticks w1\<rparr>)"
      by simp
    show ?thesis
    proof (cases r1)
      case (Inl e)
      with True w1 v1 show ?thesis by simp
    next
      case (Inr m1)
      have "ticks (v\<lparr>ticks := ticks w1\<rparr>) = ticks w1" by simp
      from Cons.IH[OF this, of m1] True w1 v1 Inr show ?thesis by simp
    qed
  qed
qed


lemma pulls_requests_Suc:
  "pulls_requests org_name repo_name k (Suc n) =
     GetPulls org_name repo_name k 100 # pulls_requests org_name repo_name (Suc k) n"
  by (simp add: pulls_requests_def upt_rec)

lemma review_pull_requests_world:
  "review_pull_requests env h ps m w = (res, w') \<Longrightarrow> w' = w\<lparr>ticks := ticks w'\<rparr>"
  using review_pull_requests_frame[of w w env h ps m] by simp

lemma pulls_loop_pages:
  assumes "\<forall>i < length pages. pulls env org_name repo_name (k + i) = Inr (pages ! i) \<and> pages ! i \<noteq> []"
    and "pulls env org_name repo_name (k + length pages) = Inr []"
    and "pull_request_objects env org_name repo_name (concat pages) w = Some (Inr objs, wx)"
    and "review_pull_requests env h objs m w = (Inr m', wy)"
  shows "\<exists>w'. pulls_loop env org_name repo_name h m k w = Some (Inr m', w') \<and>
              token w' = token w \<and> ticks w' = ticks wy \<and>
              filter is_GetPulls (trace w') =
                filter is_GetPulls (trace w) @
                pulls_requests org_name repo_name k (Suc (length pages)) \<and>
              filter (\<lambda>x. \<not> is_GetPulls x) (trace w') = filter (\<lambda>x. \<not> is_GetPulls x) (trace wx)"
  using assms
proof (induction pages arbitrary: k m w objs wx wy)
  case Nil
  then have "wx = w" by simp
  with Nil show ?case
    by (subst pulls_loop.simps) (auto simp: pulls_requests_def issue_def)
next
  case (Cons pg pages)
  let ?g = "GetPulls org_name repo_name k 100"
  from Cons.prems(1) have pg: "pulls env org_name repo_name k = Inr pg" "pg \<noteq> []"
    by force+
  have later: "\<forall>i < length pages. pulls env org_name repo_name (Suc k + i) = Inr (pages ! i) \<and> pages ! i \<noteq> []"
  proof (intro allI impI)
    fix i assume "i < length pages"
    then have "Suc i < length (pg # pages)" by simp
    from Cons.prems(1)[rule_format, OF this]
    show "pulls env org_name repo_name (Suc k + i) = Inr (pages ! i) \<and> pages ! i \<noteq> []"
      by simp
  qed
  have last: "pulls env org_name repo_name (Suc k + length pages) = Inr []"
    using Cons.prems(2) by simp
  from Cons.prems(3) obtain objs1 w1 objs2 where
    o1: "pull_request_objects env org_name repo_name pg w = Some (Inr objs1, w1)"
    and o2: "pull_request_objects env org_name repo_name (concat pages) w1 = Some (Inr objs2, wx)"
    and objs: "objs = objs1 @ objs2"
    by (auto simp: pull_request_objects_append split: option.splits sum.splits prod.splits)
  from Cons.prems(4) obtain m1 wy1 where
    r1: "review_pull_requests env h objs1 m w = (Inr m1, wy1)"
    and r2: "review_pull_requests env h objs2 m1 wy1 = (Inr m', wy)"
    unfolding objs
    by (auto simp: review_pull_requests_append split: sum.splits prod.splits)
  from objects_frame[OF o1] obtain rs1 where
    rs1: "w1 = issue_all rs1 w" "\<forall>x \<in> set rs1. \<not> is_GetPulls x"
      "\<forall>v. token v = token w \<longrightarrow>
          pull_request_objects env org_name repo_name pg v = Some (Inr objs1, issue_all rs1 v)"
    by blast
  from objects_frame[OF o2] obtain rs2 where
    rs2: "wx = issue_all rs2 w1" "\<forall>x \<in> set rs2. \<not> is_GetPulls x"
      "\<forall>v. token v = token w1 \<longrightarrow>
          pull_request_objects env org_name repo_name (concat pages) v = Some (Inr objs2, issue_all rs2 v)"
    by blast
  define a where "a = issue_all rs1 (issue ?g w)"
  define b where "b = a\<lparr>ticks := ticks wy1\<rparr>"
  have "token (issue ?g w) = token w" by (simp add: issue_def)
  with rs1(3) have step1: "pull_request_objects env org_name repo_name pg (issue ?g w) = Some (Inr objs1, a)"
    unfolding a_def by blast
  have "ticks a = ticks w" by (simp add: a_def issue_all_fields issue_def)
  from review_pull_requests_frame[OF this, of env h objs1 m] r1
  have step2: "review_pull_requests env h objs1 m a = (Inr m1, b)"
    by (simp add: b_def)
  have "token b = token w1"
    by (simp add: b_def a_def rs1(1) issue_all_fields issue_def)
  with rs2(3) have o2b: "pull_request_objects env org_name repo_name (concat pages) b = Some (Inr objs2, issue_all rs2 b)"
    by blast
  have "ticks b = ticks wy1" by (simp add: b_def)
  from review_pull_requests_frame[OF this, of env h objs2 m1] r2
  have r2b: "review_pull_requests env h objs2 m1 b = (Inr m', b\<lparr>ticks := ticks wy\<rparr>)"
    by simp
  from Cons.IH[OF later last o2b r2b] obtain w' where
    w': "pulls_loop env org_name repo_name h m1 (Suc k) b = Some (Inr m', w')"
      "token w' = token b" "ticks w' = ticks wy"
      "filter is_GetPulls (trace w') =
         filter is_GetPulls (trace b) @ pulls_requests org_name repo_name (Suc k) (Suc (length pages))"
      "filter (\<lambda>x. \<not> is_GetPulls x) (trace w') = filter (\<lambda>x. \<not> is_GetPulls x) (trace (issue_all rs2 b))"
    by auto
  have "pulls_loop env org_name repo_name h m k w = pulls_loop env org_name repo_name h m1 (Suc k) b"
    by (subst pulls_loop.simps) (simp add: pg step1 step2)
  with w'(1) have res: "pulls_loop env org_name repo_name h m k w = Some (Inr m', w')" by simp
  have tb: "trace b = trace w @ ?g # rs1"
    by (simp add: b_def a_def issue_all_fields issue_def)
  have f1: "filter is_GetPulls rs1 = []" using rs1(2) by (simp add: filter_empty_conv)
  have f2: "filter (\<lambda>x. \<not> is_GetPulls x) rs1 = rs1" using rs1(2) by (simp add: filter_id_conv)
  have twx: "trace wx = trace w @ rs1 @ rs2"
    by (simp add: rs2(1) rs1(1) issue_all_fields)
  have c1: "token w' = token w" using w'(2) by (simp add: b_def a_def issue_all_fields issue_def)
  have c3: "filter is_GetPulls (trace w') =
      filter is_GetPulls (trace w) @ pulls_requests org_name repo_name k (Suc (length (pg # pages)))"
    using w'(4) by (simp add: tb f1 pulls_requests_Suc[of _ _ k])
  have c4: "filter (\<lambda>x. \<not> is_GetPulls x) (trace w') = filter (\<lambda>x. \<not> is_GetPulls x) (trace wx)"
    using w'(5) by (simp add: issue_all_fields tb twx f2)
  from res c1 w'(3) c3 c4 show ?case by blast
qed

section \<open>Pagination\<close>


lemmas test_defs =
  test_env_def test_world_def test_parse_def test_assignees_def pull_123_def pull_234_def
  created_event_def assigned_event_def timeline1_def timeline2_def test_now_def

lemma test_objects:
  "pull_request_objects test_env ''oppia'' ''oppia'' [pull_123, pull_234] test_world =
     Some (Inr [object_123, object_234], test_world\<lparr>trace := test_timeline_trace\<rparr>)"
  by (simp add: test_defs get_pull_request_object_from_dict_def timeline_loop.simps
      get_pull_request_dict_with_timestamp_def issue_def from_github_response_def
      assignee_from_github_response_def object_123_def object_234_def test_timeline_trace_def)

lemma test_review:
  "review_pull_requests test_env (Some 20) [object_123, object_234] [] test_world =
     (Inr [(''reviewerName1'', [object_123, object_234]), (''reviewerName2'', [object_123])],
      test_world\<lparr>ticks := 4\<rparr>)"
  by (simp add: test_env_def test_world_def test_now_def object_123_def object_234_def
      is_reviewer_assigned_def timedelta_hours_def tick_def)


text \<open>
  C5: both listing loops request pages of size 100 one at a time, in ascending order from
  page 1, and stop at the first empty page, which contributes nothing. When the pages
  \<open>1, \<dots>, n\<close> are non-empty and page \<open>n + 1\<close> is empty, the timeline loop returns
  after exactly the requests for the pages \<open>1, \<dots>, n + 1\<close>, and its result is that of
  processing the concatenation of the non-empty pages, every event once and in order. In
  the same situation \<open>get_prs_assigned_to_reviewers\<close> returns, its listing requests are
  exactly those for the pages \<open>1, \<dots>, n + 1\<close>, and its result, its clock reads and its
  timeline requests are those of building and reviewing the pull requests of the
  concatenated pages, each once and in order.
\<close>

theorem pagination_stops_at_first_empty_page:
  "((\<forall>i < length tpages.
        timeline env org_name repo_name num (1 + i) = Inr (tpages ! i) \<and> tpages ! i \<noteq> []) \<and>
    timeline env org_name repo_name num (1 + length tpages) = Inr [] \<and>
    process_events (parse env) (concat tpages) st = Inr st'
    \<longrightarrow> timeline_loop env org_name repo_name num st 1 w =
          Some (Inr (snd st'),
                issue_all (timeline_requests org_name repo_name num 1 (Suc (length tpages))) w))
   \<and>
   ((\<forall>i < length ppages.
        pulls env org_name repo_name (1 + i) = Inr (ppages ! i) \<and> ppages ! i \<noteq> []) \<and>
    pulls env org_name repo_name (1 + length ppages) = Inr [] \<and>
    token w = Some tk \<and>
    pull_request_objects env org_name repo_name (concat ppages) w = Some (Inr objs, wx) \<and>
    review_pull_requests env h objs [] w = (Inr m', wy)
    \<longrightarrow> (\<exists>w'. get_prs_assigned_to_reviewers env org_name repo_name h w = Some (Inr m', w') \<and>
              ticks w' = ticks wy \<and>
              filter is_GetPulls (trace w') =
                filter is_GetPulls (trace w) @
                pulls_requests org_name repo_name 1 (Suc (length ppages)) \<and>
              filter (\<lambda>x. \<not> is_GetPulls x) (trace w') =
                filter (\<lambda>x. \<not> is_GetPulls x) (trace wx)))"
proof (intro conjI impI)
  assume "(\<forall>i < length tpages.
        timeline env org_name repo_name num (1 + i) = Inr (tpages ! i) \<and> tpages ! i \<noteq> []) \<and>
    timeline env org_name repo_name num (1 + length tpages) = Inr [] \<and>
    process_events (parse env) (concat tpages) st = Inr st'"
  then show "timeline_loop env org_name repo_name num st 1 w =
          Some (Inr (snd st'),
                issue_all (timeline_requests org_name repo_name num 1 (Suc (length tpages))) w)"
    using timeline_loop_pages[of tpages env org_name repo_name num 1 st st' w] by blast
next
  assume a: "(\<forall>i < length ppages.
        pulls env org_name repo_name (1 + i) = Inr (ppages ! i) \<and> ppages ! i \<noteq> []) \<and>
    pulls env org_name repo_name (1 + length ppages) = Inr [] \<and>
    token w = Some tk \<and>
    pull_request_objects env org_name repo_name (concat ppages) w = Some (Inr objs, wx) \<and>
    review_pull_requests env h objs [] w = (Inr m', wy)"
  then obtain w' where "pulls_loop env org_name repo_name h [] 1 w = Some (Inr m', w')"
    "ticks w' = ticks wy"
    "filter is_GetPulls (trace w') =
       filter is_GetPulls (trace w) @ pulls_requests org_name repo_name 1 (Suc (length ppages))"
    "filter (\<lambda>x. \<not> is_GetPulls x) (trace w') = filter (\<lambda>x. \<not> is_GetPulls x) (trace wx)"
    using pulls_loop_pages[of ppages env org_name repo_name 1 w objs wx h "[]" m' wy] by blast
  with a show "\<exists>w'. get_prs_assigned_to_reviewers env org_name repo_name h w = Some (Inr m', w') \<and>
              ticks w' = ticks wy \<and>
              filter is_GetPulls (trace w') =
                filter is_GetPulls (trace w) @
                pulls_requests org_name repo_name 1 (Suc (length ppages)) \<and>
              filter (\<lambda>x. \<not> is_GetPulls x) (trace w') =
                filter (\<lambda>x. \<not> is_GetPulls x) (trace wx)"
    by (auto simp: get_prs_assigned_to_reviewers_def)
qed

lemma test_process_events:
  "process_events test_parse timeline1 (pull_123, None) =
     Inr (pull_123\<lparr>assignees_key :=
             [\<lparr>login = ''reviewerName1'', created_at = Some 1690856678000000\<rparr>,
              \<lparr>login = ''reviewerName2'', created_at = Some 1690734278000000\<rparr>]\<rparr>,
          Some (pull_123\<lparr>assignees_key :=
             [\<lparr>login = ''reviewerName1'', created_at = Some 1690856678000000\<rparr>,
              \<lparr>login = ''reviewerName2'', created_at = Some 1690734278000000\<rparr>]\<rparr>))"
  by (simp add: test_defs get_pull_request_dict_with_timestamp_def)

theorem pagination_stops_at_first_empty_page_witness:
  "timeline_loop test_env ''oppia'' ''oppia'' 123 (pull_123, None) 1 test_world =
     Some (Inr (Some (pull_123\<lparr>assignees_key :=
             [\<lparr>login = ''reviewerName1'', created_at = Some 1690856678000000\<rparr>,
              \<lparr>login = ''reviewerName2'', created_at = Some 1690734278000000\<rparr>]\<rparr>)),
           test_world\<lparr>trace := [GetTimeline ''oppia'' ''oppia'' 123 1 100,
                                 GetTimeline ''oppia'' ''oppia'' 123 2 100]\<rparr>)
   \<and> (\<exists>w'. get_prs_assigned_to_reviewers test_env ''oppia'' ''oppia'' (Some 20) test_world =
              Some (Inr [(''reviewerName1'', [object_123, object_234]),
                         (''reviewerName2'', [object_123])], w') \<and>
            ticks w' = 4 \<and>
            filter is_GetPulls (trace w') =
              [GetPulls ''oppia'' ''oppia'' 1 100, GetPulls ''oppia'' ''oppia'' 2 100] \<and>
            filter (\<lambda>x. \<not> is_GetPulls x) (trace w') = test_timeline_trace)"
proof -
  have t1: "\<forall>i < length [timeline1].
      timeline test_env ''oppia'' ''oppia'' 123 (1 + i) = Inr ([timeline1] ! i) \<and>
      [timeline1] ! i \<noteq> []"
    by (simp add: test_env_def timeline1_def)
  have t2: "timeline test_env ''oppia'' ''oppia'' 123 (1 + length [timeline1]) = Inr []"
    by (simp add: test_env_def)
  have t3: "process_events (parse test_env) (concat [timeline1]) (pull_123, None) =
     Inr (pull_123\<lparr>assignees_key :=
             [\<lparr>login = ''reviewerName1'', created_at = Some 1690856678000000\<rparr>,
              \<lparr>login = ''reviewerName2'', created_at = Some 1690734278000000\<rparr>]\<rparr>,
          Some (pull_123\<lparr>assignees_key :=
             [\<lparr>login = ''reviewerName1'', created_at = Some 1690856678000000\<rparr>,
              \<lparr>login = ''reviewerName2'', created_at = Some 1690734278000000\<rparr>]\<rparr>))"
    using test_process_events by (simp add: test_env_def)
  have p1: "\<forall>i < length [[pull_123, pull_234]].
      pulls test_env ''oppia'' ''oppia'' (1 + i) = Inr ([[pull_123, pull_234]] ! i) \<and>
      [[pull_123, pull_234]] ! i \<noteq> []"
    by (simp add: test_env_def)
  have p2: "pulls test_env ''oppia'' ''oppia'' (1 + length [[pull_123, pull_234]]) = Inr []"
    by (simp add: test_env_def)
  have p3: "token test_world = Some ''my_github_token''"
    by (simp add: test_world_def)
  have p4: "pull_request_objects test_env ''oppia'' ''oppia'' (concat [[pull_123, pull_234]])
              test_world =
            Some (Inr [object_123, object_234], test_world\<lparr>trace := test_timeline_trace\<rparr>)"
    using test_objects by simp
  define st' where "st' = (pull_123\<lparr>assignees_key :=
             [\<lparr>login = ''reviewerName1'', created_at = Some 1690856678000000\<rparr>,
              \<lparr>login = ''reviewerName2'', created_at = Some 1690734278000000\<rparr>]\<rparr>,
          Some (pull_123\<lparr>assignees_key :=
             [\<lparr>login = ''reviewerName1'', created_at = Some 1690856678000000\<rparr>,
              \<lparr>login = ''reviewerName2'', created_at = Some 1690734278000000\<rparr>]\<rparr>))"
  note inst = pagination_stops_at_first_empty_page
    [of "[timeline1]" test_env "''oppia''" "''oppia''" 123 "(pull_123, None)" st' test_world
        "[[pull_123, pull_234]]" "''my_github_token''" "[object_123, object_234]"
        "test_world\<lparr>trace := test_timeline_trace\<rparr>" "Some 20"
        "[(''reviewerName1'', [object_123, object_234]), (''reviewerName2'', [object_123])]"
        "test_world\<lparr>ticks := 4\<rparr>"]
  from inst t1 t2 t3 have A: "timeline_loop test_env ''oppia'' ''oppia'' 123 (pull_123, None) 1 test_world =
          Some (Inr (snd st'),
                issue_all (timeline_requests ''oppia'' ''oppia'' 123 1 (Suc (length [timeline1])))
                  test_world)"
    unfolding st'_def by blast
  from inst p1 p2 p3 p4 test_review
  have B: "\<exists>w'. get_prs_assigned_to_reviewers test_env ''oppia'' ''oppia'' (Some 20) test_world =
              Some (Inr [(''reviewerName1'', [object_123, object_234]),
                         (''reviewerName2'', [object_123])], w') \<and>
              ticks w' = ticks (test_world\<lparr>ticks := 4\<rparr>) \<and>
              filter is_GetPulls (trace w') =
                filter is_GetPulls (trace test_world) @
                pulls_requests ''oppia'' ''oppia'' 1 (Suc (length [[pull_123, pull_234]])) \<and>
              filter (\<lambda>x. \<not> is_GetPulls x) (trace w') =
                filter (\<lambda>x. \<not> is_GetPulls x) (trace (test_world\<lparr>trace := test_timeline_trace\<rparr>))"
    by blast
  have A': "timeline_loop test_env ''oppia'' ''oppia'' 123 (pull_123, None) 1 test_world =
     Some (Inr (Some (pull_123\<lparr>assignees_key :=
             [\<lparr>login = ''reviewerName1'', created_at = Some 1690856678000000\<rparr>,
              \<lparr>login = ''reviewerName2'', created_at = Some 1690734278000000\<rparr>]\<rparr>)),
           test_world\<lparr>trace := [GetTimeline ''oppia'' ''oppia'' 123 1 100,
                                 GetTimeline ''oppia'' ''oppia'' 123 2 100]\<rparr>)"
    using A by (simp add: st'_def issue_all_def timeline_requests_def upt_rec test_world_def)
  have B': "\<exists>w'. get_prs_assigned_to_reviewers test_env ''oppia'' ''oppia'' (Some 20) test_world =
              Some (Inr [(''reviewerName1'', [object_123, object_234]),
                         (''reviewerName2'', [object_123])], w') \<and>
            ticks w' = 4 \<and>
            filter is_GetPulls (trace w') =
              [GetPulls ''oppia'' ''oppia'' 1 100, GetPulls ''oppia'' ''oppia'' 2 100] \<and>
            filter (\<lambda>x. \<not> is_GetPulls x) (trace w') = test_timeline_trace"
    using B by (simp add: pulls_requests_def upt_rec test_world_def test_timeline_trace_def numeral_2_eq_2)
  from A' B' show ?thesis by blast
qed

section \<open>Properties of the staleness filter\<close>


lemma dict_get_dict_append:
  "dict_get (dict_append k v m) u = (if u = k then dict_get m u @ [v] else dict_get m u)"
  by (induction m) (auto simp: dict_get_def)

lemma overdue_in_Nil: "overdue_in env n t0 [] u = []"
  by (simp add: overdue_in_def)

lemma upt_head: "[t0 ..< Suc (t0 + l)] = t0 # [Suc t0 ..< Suc (t0 + l)]"
  by (subst upt_rec) simp

lemma overdue_in_Cons:
  "overdue_in env n t0 ((p, a) # pas) u =
     (if username a = u \<and> is_overdue env n t0 p a then [p] else []) @
     overdue_in env n (Suc t0) pas u"
  by (simp add: overdue_in_def upt_head del: upt_Suc)

lemma overdue_in_append:
  "overdue_in env n t0 (xs @ ys) u =
     overdue_in env n t0 xs u @ overdue_in env n (t0 + length xs) ys u"
proof (induction xs arbitrary: t0)
  case Nil
  show ?case by (simp add: overdue_in_Nil)
next
  case (Cons x xs)
  obtain p a where x: "x = (p, a)" by (cases x)
  show ?case using Cons.IH[of "Suc t0"] by (simp add: x overdue_in_Cons)
qed

lemma timedelta_hours_in_range:
  "- 999999999 \<le> n div 24 \<Longrightarrow> n div 24 \<le> 999999999 \<Longrightarrow>
   timedelta_hours (Some n) = Inr (n * 3600000000)"
  by (simp add: timedelta_hours_def)

lemma timedelta_hours_Inr: "timedelta_hours (Some n) = Inr th \<Longrightarrow> th = n * 3600000000"
  by (auto simp: timedelta_hours_def split: if_splits)

lemma review_assignees_overdue:
  "review_assignees env (Some n) p as m w = (Inr m', w') \<Longrightarrow>
   ticks w' = ticks w + length as \<and>
   (\<forall>u. dict_get m' u = dict_get m u @ overdue_in env n (ticks w) (map (Pair p) as) u)"
proof (induction as arbitrary: m w)
  case Nil
  then show ?case by (simp add: overdue_in_Nil)
next
  case (Cons a as)
  from Cons.prems obtain ts where ts: "assigned_on_timestamp a = Some ts"
    by (cases "assigned_on_timestamp a") auto
  have tk: "ticks (tick w) = Suc (ticks w)" by (simp add: tick_def)
  show ?case
  proof (cases "username a \<noteq> author_username p")
    case False
    with Cons.prems ts have "review_assignees env (Some n) p as m (tick w) = (Inr m', w')"
      by simp
    from Cons.IH[OF this] False show ?thesis
      by (simp add: tk overdue_in_Cons is_overdue_def)
  next
    case True
    with Cons.prems ts obtain th where th: "timedelta_hours (Some n) = Inr th"
      by (cases "timedelta_hours (Some n)") auto
    then have th_eq: "th = n * 3600000000" by (rule timedelta_hours_Inr)
    show ?thesis
    proof (cases "th \<le> now env (ticks w) - ts")
      case over: True
      with Cons.prems ts True th
      have "review_assignees env (Some n) p as (dict_append (username a) p m) (tick w) = (Inr m', w')"
        by simp
      from Cons.IH[OF this] True over show ?thesis
        by (simp add: tk overdue_in_Cons is_overdue_def ts th_eq dict_get_dict_append)
    next
      case under: False
      with Cons.prems ts True th
      have "review_assignees env (Some n) p as m (tick w) = (Inr m', w')"
        by simp
      from Cons.IH[OF this] True under show ?thesis
        by (simp add: tk overdue_in_Cons is_overdue_def ts th_eq)
    qed
  qed
qed

lemma review_pull_requests_overdue:
  "review_pull_requests env (Some n) prs m w = (Inr m', w') \<Longrightarrow>
   ticks w' = ticks w + length (pairs prs) \<and>
   (\<forall>u. dict_get m' u = dict_get m u @ overdue_of env n (ticks w) prs u)"
proof (induction prs arbitrary: m w)
  case Nil
  then show ?case by (simp add: overdue_of_def pairs_def overdue_in_Nil)
next
  case (Cons p ps)
  have pairs_Cons: "pairs (p # ps) = map (Pair p) (assignees p) @ pairs ps"
    by (simp add: pairs_def)
  show ?case
  proof (cases "is_reviewer_assigned p")
    case False
    then have "assignees p = []" by (simp add: is_reviewer_assigned_def)
    with Cons.prems False Cons.IH[of m w] show ?thesis
      by (simp add: overdue_of_def pairs_Cons)
  next
    case True
    with Cons.prems obtain m1 w1 where
      a: "review_assignees env (Some n) p (assignees p) m w = (Inr m1, w1)"
      and b: "review_pull_requests env (Some n) ps m1 w1 = (Inr m', w')"
      by (auto split: sum.splits prod.splits)
    from review_assignees_overdue[OF a] Cons.IH[OF b] show ?thesis
      by (simp add: overdue_of_def pairs_Cons overdue_in_append)
  qed
qed

lemma review_assignees_succeeds:
  assumes "\<forall>a \<in> set as. assigned_on_timestamp a \<noteq> None"
    and "- 999999999 \<le> n div 24" and "n div 24 \<le> 999999999"
  shows "\<exists>m' w'. review_assignees env (Some n) p as m w = (Inr m', w')"
  using assms(1)
proof (induction as arbitrary: m w)
  case Nil
  show ?case by simp
next
  case (Cons a as)
  then obtain ts where ts: "assigned_on_timestamp a = Some ts" by auto
  from Cons have "\<And>m w. \<exists>m' w'. review_assignees env (Some n) p as m w = (Inr m', w')"
    by simp
  then show ?case
    by (simp add: ts timedelta_hours_in_range[OF assms(2,3)])
qed

lemma review_pull_requests_succeeds:
  assumes "\<forall>(p, a) \<in> set (pairs prs). assigned_on_timestamp a \<noteq> None"
    and "- 999999999 \<le> n div 24" and "n div 24 \<le> 999999999"
  shows "\<exists>m' w'. review_pull_requests env (Some n) prs m w = (Inr m', w')"
  using assms(1)
proof (induction prs arbitrary: m w)
  case Nil
  show ?case by simp
next
  case (Cons p ps)
  have here: "\<forall>a \<in> set (assignees p). assigned_on_timestamp a \<noteq> None"
  proof
    fix a assume "a \<in> set (assignees p)"
    then have "(p, a) \<in> set (pairs (p # ps))" by (auto simp: pairs_def)
    with Cons.prems show "assigned_on_timestamp a \<noteq> None" by fastforce
  qed
  have rest: "\<forall>(p, a) \<in> set (pairs ps). assigned_on_timestamp a \<noteq> None"
  proof -
    have "assigned_on_timestamp a \<noteq> None" if "(q, a) \<in> set (pairs ps)" for q a
    proof -
      from that have "(q, a) \<in> set (pairs (p # ps))" by (auto simp: pairs_def)
      with Cons.prems show ?thesis by fastforce
    qed
    then show ?thesis by auto
  qed
  from review_assignees_succeeds[OF here assms(2,3), of env p m w]
  obtain m1 w1 where a: "review_assignees env (Some n) p (assignees p) m w = (Inr m1, w1)"
    by blast
  from Cons.IH[OF rest, of m1 w1] Cons.IH[OF rest, of m w] a show ?case
    by simp
qed


lemma overdue_in_set:
  "p \<in> set (overdue_in env n t0 pas u) \<longleftrightarrow>
     (\<exists>i < length pas. \<exists>a. pas ! i = (p, a) \<and> username a = u \<and> is_overdue env n (t0 + i) p a)"
proof (induction pas arbitrary: t0)
  case Nil
  show ?case by (simp add: overdue_in_Nil)
next
  case (Cons x pas)
  obtain q b where x: "x = (q, b)" by (cases x)
  show ?case
    unfolding x overdue_in_Cons
    by (auto simp: Cons.IH less_Suc_eq_0_disj)
qed

text \<open>
  C1: let the listing pages \<open>1, \<dots>, n\<close> be non-empty and page \<open>n + 1\<close> empty, let the
  pull requests of these pages become the objects \<open>objs\<close>, let every assignee carry a
  timestamp, and let the threshold be a number of hours a \<open>timedelta\<close> can hold. Then
  \<open>get_prs_assigned_to_reviewers\<close> returns a map, and under every username it lists,
  in processing order, exactly the pull requests of the (pull request, assignee) pairs
  whose assignee has this username, is not the author, and has waited at least the
  threshold when the clock is read for the pair: a pull request is listed under \<open>u\<close> if
  and only if some pair of it with an assignee named \<open>u\<close> satisfies \<open>is_overdue\<close>. The
  comparison is \<open>\<le>\<close>, so an elapsed time equal to the threshold counts.
\<close>

theorem overdue_exactly_when_threshold_reached:
  assumes "token w = Some tk"
    and "\<forall>i < length pages.
           pulls env org_name repo_name (1 + i) = Inr (pages ! i) \<and> pages ! i \<noteq> []"
    and "pulls env org_name repo_name (1 + length pages) = Inr []"
    and "pull_request_objects env org_name repo_name (concat pages) w = Some (Inr objs, wx)"
    and "\<forall>(p, a) \<in> set (pairs objs). assigned_on_timestamp a \<noteq> None"
    and "- 999999999 \<le> n div 24" and "n div 24 \<le> 999999999"
  shows "\<exists>m' w'.
           get_prs_assigned_to_reviewers env org_name repo_name (Some n) w = Some (Inr m', w') \<and>
           (\<forall>u. dict_get m' u = overdue_of env n (ticks w) objs u) \<and>
           (\<forall>u p. p \<in> set (dict_get m' u) \<longleftrightarrow>
              (\<exists>i < length (pairs objs). \<exists>a. pairs objs ! i = (p, a) \<and> username a = u \<and>
                 is_overdue env n (ticks w + i) p a))"
proof -
  from review_pull_requests_succeeds[OF assms(5,6,7), of env "[]" w]
  obtain m' wy where r: "review_pull_requests env (Some n) objs [] w = (Inr m', wy)"
    by blast
  from pulls_loop_pages[OF assms(2,3,4) r]
  obtain w' where "pulls_loop env org_name repo_name (Some n) [] 1 w = Some (Inr m', w')"
    by blast
  with assms(1)
  have g: "get_prs_assigned_to_reviewers env org_name repo_name (Some n) w = Some (Inr m', w')"
    by (simp add: get_prs_assigned_to_reviewers_def)
  from review_pull_requests_overdue[OF r]
  have eq: "\<forall>u. dict_get m' u = overdue_of env n (ticks w) objs u"
    by (simp add: dict_get_def)
  then have "\<forall>u p. p \<in> set (dict_get m' u) \<longleftrightarrow>
              (\<exists>i < length (pairs objs). \<exists>a. pairs objs ! i = (p, a) \<and> username a = u \<and>
                 is_overdue env n (ticks w + i) p a)"
    by (simp add: overdue_of_def overdue_in_set)
  with g eq show ?thesis by blast
qed

lemma boundary_objects:
  "pull_request_objects boundary_env ''oppia'' ''oppia'' [pull_555] test_world =
     Some (Inr [object_555],
           test_world\<lparr>trace := [GetTimeline ''oppia'' ''oppia'' 555 1 100,
                                 GetTimeline ''oppia'' ''oppia'' 555 2 100]\<rparr>)"
  by (simp add: boundary_env_def test_env_def test_world_def test_assignees_def pull_555_def
      assigned_event_def get_pull_request_object_from_dict_def timeline_loop.simps
      get_pull_request_dict_with_timestamp_def issue_def from_github_response_def
      assignee_from_github_response_def object_555_def)

theorem overdue_exactly_when_threshold_reached_witness:
  "\<exists>m' w'.
     get_prs_assigned_to_reviewers boundary_env ''oppia'' ''oppia'' (Some 20) test_world =
       Some (Inr m', w') \<and>
     dict_get m' ''reviewerName1'' = [object_555] \<and>
     dict_get m' ''reviewerName2'' = []"
proof -
  have h1: "token test_world = Some ''my_github_token''"
    by (simp add: test_world_def)
  have h2: "\<forall>i < length [[pull_555]].
      pulls boundary_env ''oppia'' ''oppia'' (1 + i) = Inr ([[pull_555]] ! i) \<and>
      [[pull_555]] ! i \<noteq> []"
    by (simp add: boundary_env_def)
  have h3: "pulls boundary_env ''oppia'' ''oppia'' (1 + length [[pull_555]]) = Inr []"
    by (simp add: boundary_env_def)
  have h4: "pull_request_objects boundary_env ''oppia'' ''oppia'' (concat [[pull_555]])
              test_world =
            Some (Inr [object_555],
              test_world\<lparr>trace := [GetTimeline ''oppia'' ''oppia'' 555 1 100,
                                    GetTimeline ''oppia'' ''oppia'' 555 2 100]\<rparr>)"
    using boundary_objects by simp
  have h5: "\<forall>(p, a) \<in> set (pairs [object_555]). assigned_on_timestamp a \<noteq> None"
    by (simp add: pairs_def object_555_def)
  have h6: "- 999999999 \<le> (20::int) div 24" and h7: "(20::int) div 24 \<le> 999999999"
    by simp_all
  from overdue_exactly_when_threshold_reached[OF h1 h2 h3 h4 h5 h6 h7]
  obtain m' w' where
    g: "get_prs_assigned_to_reviewers boundary_env ''oppia'' ''oppia'' (Some 20) test_world =
          Some (Inr m', w')"
    and eq: "\<forall>u. dict_get m' u = overdue_of boundary_env 20 (ticks test_world) [object_555] u"
    by blast
  have "overdue_of boundary_env 20 (ticks test_world) [object_555] ''reviewerName1'' = [object_555]"
    by (simp add: overdue_of_def overdue_in_def pairs_def is_overdue_def boundary_env_def
        test_env_def test_now_def test_world_def object_555_def upt_rec)
  moreover
  have "overdue_of boundary_env 20 (ticks test_world) [object_555] ''reviewerName2'' = []"
    by (simp add: overdue_of_def overdue_in_def pairs_def is_overdue_def boundary_env_def
        test_env_def test_now_def test_world_def object_555_def upt_rec)
  ultimately show ?thesis using g eq by auto
qed

section \<open>Assignees without an assignment event\<close>


lemma review_assignees_fails:
  "a \<in> set as \<Longrightarrow> assigned_on_timestamp a = None \<Longrightarrow>
   \<exists>e. fst (review_assignees env h p as m w) = Inl e"
proof (induction as arbitrary: m w)
  case Nil
  then show ?case by simp
next
  case (Cons b as)
  show ?case
  proof (cases "a = b")
    case True
    with Cons.prems show ?thesis by simp
  next
    case False
    with Cons.prems have "\<And>m w. \<exists>e. fst (review_assignees env h p as m w) = Inl e"
      using Cons.IH by simp
    then show ?thesis
      by (auto split: option.splits sum.splits)
  qed
qed

lemma review_pull_requests_fails:
  "p \<in> set prs \<Longrightarrow> a \<in> set (assignees p) \<Longrightarrow> assigned_on_timestamp a = None \<Longrightarrow>
   \<exists>e. fst (review_pull_requests env h prs m w) = Inl e"
proof (induction prs arbitrary: m w)
  case Nil
  then show ?case by simp
next
  case (Cons q prs)
  show ?case
  proof (cases "p = q")
    case True
    with Cons.prems have "is_reviewer_assigned q" by (auto simp: is_reviewer_assigned_def)
    moreover from True Cons.prems
    obtain e where "fst (review_assignees env h q (assignees q) m w) = Inl e"
      using review_assignees_fails[of a "assignees q" env h q m w] by auto
    ultimately show ?thesis
      by (cases "review_assignees env h q (assignees q) m w") auto
  next
    case False
    with Cons.prems have "\<And>m w. \<exists>e. fst (review_pull_requests env h prs m w) = Inl e"
      using Cons.IH by simp
    then show ?thesis
      by (auto split: sum.splits prod.splits)
  qed
qed

lemma review_assignees_error:
  assumes "- 999999999 \<le> n div 24" and "n div 24 \<le> 999999999"
  shows "review_assignees env (Some n) p as m w = (Inl e, w') \<Longrightarrow>
         e = TypeError ''unsupported operand type(s) for -: datetime.datetime and NoneType''"
proof (induction as arbitrary: m w)
  case Nil
  then show ?case by simp
next
  case (Cons a as)
  show ?case
  proof (cases "assigned_on_timestamp a")
    case None
    with Cons.prems show ?thesis by simp
  next
    case (Some ts)
    from Cons.prems Some
    have "review_assignees env (Some n) p as m (tick w) = (Inl e, w') \<or>
          review_assignees env (Some n) p as (dict_append (username a) p m) (tick w) = (Inl e, w')"
      by (auto simp: timedelta_hours_in_range[OF assms] split: if_splits)
    with Cons.IH show ?thesis by blast
  qed
qed

lemma review_pull_requests_error:
  assumes "- 999999999 \<le> n div 24" and "n div 24 \<le> 999999999"
  shows "review_pull_requests env (Some n) prs m w = (Inl e, w') \<Longrightarrow>
         e = TypeError ''unsupported operand type(s) for -: datetime.datetime and NoneType''"
proof (induction prs arbitrary: m w)
  case Nil
  then show ?case by simp
next
  case (Cons p ps)
  show ?case
  proof (cases "is_reviewer_assigned p")
    case False
    with Cons.prems have "review_pull_requests env (Some n) ps m w = (Inl e, w')" by simp
    from Cons.IH[OF this] show ?thesis .
  next
    case True
    obtain r1 w1 where a: "review_assignees env (Some n) p (assignees p) m w = (r1, w1)"
      by (cases "review_assignees env (Some n) p (assignees p) m w")
    show ?thesis
    proof (cases r1)
      case (Inl e1)
      with Cons.prems True a have "e = e1" by simp
      with review_assignees_error[OF assms a[unfolded Inl]] show ?thesis by simp
    next
      case (Inr m1)
      with Cons.prems True a have "review_pull_requests env (Some n) ps m1 w1 = (Inl e, w')"
        by simp
      from Cons.IH[OF this] show ?thesis .
    qed
  qed
qed

lemma pulls_loop_prefix_fails:
  assumes "\<forall>i < length pages. pulls env org_name repo_name (k + i) = Inr (pages ! i) \<and> pages ! i \<noteq> []"
    and "pull_request_objects env org_name repo_name (concat pages) w = Some (Inr objs, wx)"
    and "fst (review_pull_requests env h objs m w) = Inl e"
  shows "\<exists>w'. pulls_loop env org_name repo_name h m k w = Some (Inl e, w')"
  using assms
proof (induction pages arbitrary: k m w objs wx)
  case Nil
  then show ?case by simp
next
  case (Cons pg pages)
  let ?g = "GetPulls org_name repo_name k 100"
  from Cons.prems(1) have pg: "pulls env org_name repo_name k = Inr pg" "pg \<noteq> []"
    by force+
  have later: "\<forall>i < length pages. pulls env org_name repo_name (Suc k + i) = Inr (pages ! i) \<and> pages ! i \<noteq> []"
  proof (intro allI impI)
    fix i assume "i < length pages"
    then have "Suc i < length (pg # pages)" by simp
    from Cons.prems(1)[rule_format, OF this]
    show "pulls env org_name repo_name (Suc k + i) = Inr (pages ! i) \<and> pages ! i \<noteq> []"
      by simp
  qed
  from Cons.prems(2) obtain objs1 w1 objs2 where
    o1: "pull_request_objects env org_name repo_name pg w = Some (Inr objs1, w1)"
    and o2: "pull_request_objects env org_name repo_name (concat pages) w1 = Some (Inr objs2, wx)"
    and objs: "objs = objs1 @ objs2"
    by (auto simp: pull_request_objects_append split: option.splits sum.splits prod.splits)
  from objects_frame[OF o1] obtain rs1 where
    rs1: "w1 = issue_all rs1 w"
      "\<forall>v. token v = token w \<longrightarrow>
          pull_request_objects env org_name repo_name pg v = Some (Inr objs1, issue_all rs1 v)"
    by blast
  define a where "a = issue_all rs1 (issue ?g w)"
  have "token (issue ?g w) = token w" by (simp add: issue_def)
  with rs1(2) have step1: "pull_request_objects env org_name repo_name pg (issue ?g w) = Some (Inr objs1, a)"
    unfolding a_def by blast
  obtain rr wy1 where r1w: "review_pull_requests env h objs1 m w = (rr, wy1)"
    by (cases "review_pull_requests env h objs1 m w")
  define b where "b = a\<lparr>ticks := ticks wy1\<rparr>"
  have "ticks a = ticks w" by (simp add: a_def issue_all_fields issue_def)
  from review_pull_requests_frame[OF this, of env h objs1 m] r1w
  have step2: "review_pull_requests env h objs1 m a = (rr, b)"
    by (simp add: b_def)
  show ?case
  proof (cases rr)
    case (Inl e1)
    with Cons.prems(3) objs r1w have "e1 = e" by (simp add: review_pull_requests_append)
    have "pulls_loop env org_name repo_name h m k w = Some (Inl e1, b)"
      by (subst pulls_loop.simps) (simp add: pg step1 step2 Inl)
    with \<open>e1 = e\<close> show ?thesis by blast
  next
    case m1: (Inr m1)
    from objects_frame[OF o2] obtain rs2 where
      rs2: "\<forall>v. token v = token w1 \<longrightarrow>
        pull_request_objects env org_name repo_name (concat pages) v = Some (Inr objs2, issue_all rs2 v)"
      by blast
    have "token b = token w1"
      by (simp add: b_def a_def rs1(1) issue_all_fields issue_def)
    with rs2 have o2b: "pull_request_objects env org_name repo_name (concat pages) b = Some (Inr objs2, issue_all rs2 b)"
      by blast
    from Cons.prems(3) objs r1w m1 have e: "fst (review_pull_requests env h objs2 m1 wy1) = Inl e"
      by (simp add: review_pull_requests_append)
    have "ticks b = ticks wy1" by (simp add: b_def)
    from review_pull_requests_frame[OF this, of env h objs2 m1] e
    have fails: "fst (review_pull_requests env h objs2 m1 b) = Inl e" by simp
    from Cons.IH[OF later o2b fails] obtain w' where
      "pulls_loop env org_name repo_name h m1 (Suc k) b = Some (Inl e, w')" by blast
    moreover
    have "pulls_loop env org_name repo_name h m k w = pulls_loop env org_name repo_name h m1 (Suc k) b"
      by (subst pulls_loop.simps) (simp add: pg step1 step2 m1)
    ultimately show ?thesis by simp
  qed
qed


lemma objects_member:
  "pull_request_objects env org_name repo_name ds w = Some (Inr objs, w') \<Longrightarrow> d \<in> set ds \<Longrightarrow>
   \<exists>p v v'. p \<in> set objs \<and>
     get_pull_request_object_from_dict env org_name repo_name d v = Some (Inr p, v')"
proof (induction ds arbitrary: w objs w')
  case Nil
  then show ?case by simp
next
  case (Cons x ds)
  from Cons.prems(1) obtain p w1 ps where
    first: "get_pull_request_object_from_dict env org_name repo_name x w = Some (Inr p, w1)"
    and rest: "pull_request_objects env org_name repo_name ds w1 = Some (Inr ps, w')"
    and objs: "objs = p # ps"
    by (auto split: option.splits sum.splits prod.splits)
  show ?case
  proof (cases "d = x")
    case True
    with first objs show ?thesis by auto
  next
    case False
    with Cons.prems(2) have "d \<in> set ds" by simp
    from Cons.IH[OF rest this] objs show ?thesis by auto
  qed
qed

lemma object_stamped:
  assumes "\<forall>i < length pages.
           timeline env org_name repo_name (number d) (1 + i) = Inr (pages ! i) \<and> pages ! i \<noteq> []"
    and "timeline env org_name repo_name (number d) (1 + length pages) = Inr []"
    and "get_pull_request_object_from_dict env org_name repo_name d v = Some (Inr p, v')"
  shows "p = from_github_response
           (d\<lparr>assignees_key :=
                map (\<lambda>a. a\<lparr>created_at := recorded (parse env) (concat pages) a\<rparr>)
                  (assignees_key d)\<rparr>)"
proof -
  from assms(3) obtain upd where
    loop: "timeline_loop env org_name repo_name (number d) (d, None) 1 v = Some (Inr (Some upd), v')"
    and p: "p = from_github_response upd"
    by (auto simp: get_pull_request_object_from_dict_def
        split: option.splits sum.splits prod.splits)
  from timeline_loop_result[OF assms(1) assms(2), of "(d, None)" v] loop
  obtain d' where pe: "process_events (parse env) (concat pages) (d, None) = Inr (d', Some upd)"
    by (auto split: sum.splits)
  from process_events_updated[OF pe] have "upd = d'"
    by (simp split: if_splits)
  with process_events_Inr[OF pe] p show ?thesis by simp
qed

text \<open>
  C2 (amended): an assignee listed on a pull request without a matching "assigned"
  timeline event is left without an assignment timestamp in the object
  \<open>get_pull_request_object_from_dict\<close> builds, and the staleness loop has no skip for
  such an assignee. Let the listing pages \<open>1, \<dots>, n\<close> be non-empty, whatever follows
  them, let their pull requests become the objects \<open>objs\<close>, let one of these pull
  requests list an assignee that has no timestamp of its own and that no "assigned"
  event of its timeline names, and let the threshold be a number of hours a
  \<open>timedelta\<close> can hold. Then the object of that pull request carries the assignee
  without a timestamp, and \<open>get_prs_assigned_to_reviewers\<close> fails with the
  \<open>TypeError\<close> of subtracting \<open>None\<close> from the clock reading: it returns no overdue
  map at all.
\<close>

theorem unmatched_assignee_fails:
  assumes "token w = Some tk"
    and "\<forall>i < length ppages.
           pulls env org_name repo_name (1 + i) = Inr (ppages ! i) \<and> ppages ! i \<noteq> []"
    and "pull_request_objects env org_name repo_name (concat ppages) w = Some (Inr objs, wx)"
    and "d \<in> set (concat ppages)"
    and "\<forall>i < length tpages.
           timeline env org_name repo_name (number d) (1 + i) = Inr (tpages ! i) \<and>
           tpages ! i \<noteq> []"
    and "timeline env org_name repo_name (number d) (1 + length tpages) = Inr []"
    and "a \<in> set (assignees_key d)"
    and "created_at a = None"
    and "matching (login a) (concat tpages) = []"
    and "- 999999999 \<le> n div 24" and "n div 24 \<le> 999999999"
  shows "(\<exists>p \<in> set objs. pr_number p = number d \<and>
            \<lparr>username = login a, assigned_on_timestamp = None\<rparr> \<in> set (assignees p)) \<and>
         (\<exists>w'. get_prs_assigned_to_reviewers env org_name repo_name (Some n) w =
            Some (Inl (TypeError
                    ''unsupported operand type(s) for -: datetime.datetime and NoneType''), w'))"
proof -
  let ?a = "\<lparr>username = login a, assigned_on_timestamp = None\<rparr>"
  from objects_member[OF assms(3,4)] obtain p v v' where
    p: "p \<in> set objs"
    and built: "get_pull_request_object_from_dict env org_name repo_name d v = Some (Inr p, v')"
    by blast
  note stamped = object_stamped[OF assms(5,6) built]
  have none: "recorded (parse env) (concat tpages) a = None"
    using assms(8,9) by (simp add: recorded_def)
  have num: "pr_number p = number d"
    unfolding stamped by (simp add: from_github_response_def)
  have "assignee_from_github_response
          (a\<lparr>created_at := recorded (parse env) (concat tpages) a\<rparr>) \<in> set (assignees p)"
    using assms(7) unfolding stamped by (simp add: from_github_response_def)
  then have mem: "?a \<in> set (assignees p)"
    by (simp add: assignee_from_github_response_def none)
  have "assigned_on_timestamp ?a = None" by simp
  from review_pull_requests_fails[OF p mem this, of env "Some n" "[]" w]
  obtain e where e: "fst (review_pull_requests env (Some n) objs [] w) = Inl e" by blast
  obtain wr where "review_pull_requests env (Some n) objs [] w = (Inl e, wr)"
    using e by (cases "review_pull_requests env (Some n) objs [] w") simp
  from review_pull_requests_error[OF assms(10,11) this]
  have "e = TypeError ''unsupported operand type(s) for -: datetime.datetime and NoneType''" .
  with pulls_loop_prefix_fails[OF assms(2,3) e] assms(1)
  have "\<exists>w'. get_prs_assigned_to_reviewers env org_name repo_name (Some n) w =
            Some (Inl (TypeError
                    ''unsupported operand type(s) for -: datetime.datetime and NoneType''), w')"
    by (simp add: get_prs_assigned_to_reviewers_def)
  with p num mem show ?thesis by blast
qed

lemma unmatched_objects:
  "pull_request_objects unmatched_env ''oppia'' ''oppia'' [pull_123] test_world =
     Some (Inr [unmatched_object],
           test_world\<lparr>trace := [GetTimeline ''oppia'' ''oppia'' 123 1 100,
                                 GetTimeline ''oppia'' ''oppia'' 123 2 100]\<rparr>)"
  by (simp add: unmatched_env_def unmatched_timeline_def test_env_def test_world_def
      test_assignees_def pull_123_def test_parse_def created_event_def
      assigned_event_def get_pull_request_object_from_dict_def timeline_loop.simps
      get_pull_request_dict_with_timestamp_def issue_def from_github_response_def
      assignee_from_github_response_def unmatched_object_def)

theorem unmatched_assignee_fails_witness:
  "\<lparr>username = ''reviewerName2'', assigned_on_timestamp = None\<rparr> \<in> set (assignees unmatched_object) \<and>
   (\<exists>w'. get_prs_assigned_to_reviewers unmatched_env ''oppia'' ''oppia'' (Some 20) test_world =
      Some (Inl (TypeError
                    ''unsupported operand type(s) for -: datetime.datetime and NoneType''), w'))"
proof -
  have h1: "token test_world = Some ''my_github_token''"
    by (simp add: test_world_def)
  have h2: "\<forall>i < length [[pull_123]].
      pulls unmatched_env ''oppia'' ''oppia'' (1 + i) = Inr ([[pull_123]] ! i) \<and>
      [[pull_123]] ! i \<noteq> []"
    by (simp add: unmatched_env_def)
  have h3: "pull_request_objects unmatched_env ''oppia'' ''oppia'' (concat [[pull_123]])
              test_world =
            Some (Inr [unmatched_object],
              test_world\<lparr>trace := [GetTimeline ''oppia'' ''oppia'' 123 1 100,
                                    GetTimeline ''oppia'' ''oppia'' 123 2 100]\<rparr>)"
    using unmatched_objects by simp
  have h4: "pull_123 \<in> set (concat [[pull_123]])" by simp
  have h5: "\<forall>i < length [unmatched_timeline].
      timeline unmatched_env ''oppia'' ''oppia'' (number pull_123) (1 + i) =
        Inr ([unmatched_timeline] ! i) \<and> [unmatched_timeline] ! i \<noteq> []"
    by (simp add: unmatched_env_def unmatched_timeline_def)
  have h6: "timeline unmatched_env ''oppia'' ''oppia'' (number pull_123)
              (1 + length [unmatched_timeline]) = Inr []"
    by (simp add: unmatched_env_def)
  have h7: "\<lparr>login = ''reviewerName2'', created_at = None\<rparr> \<in> set (assignees_key pull_123)"
    by (simp add: pull_123_def test_assignees_def)
  have h8: "created_at \<lparr>login = ''reviewerName2'', created_at = None\<rparr> = None" by simp
  have h9: "matching (login \<lparr>login = ''reviewerName2'', created_at = None\<rparr>)
               (concat [unmatched_timeline]) = []"
    by (simp add: matching_def unmatched_timeline_def created_event_def assigned_event_def)
  have h10: "- 999999999 \<le> (20::int) div 24" and h11: "(20::int) div 24 \<le> 999999999"
    by simp_all
  from unmatched_assignee_fails[OF h1 h2 h3 h4 h5 h6 h7 h8 h9 h10 h11]
  show ?thesis by simp
qed

theorem unmatched_assignee_counterexample:
  "\<lparr>login = ''reviewerName2'', created_at = None\<rparr> \<in> set (assignees_key pull_123) \<and>
   matching ''reviewerName2'' unmatched_timeline = [] \<and>
   get_prs_assigned_to_reviewers unmatched_env ''oppia'' ''oppia'' (Some 20) test_world =
     Some (Inl (TypeError
                  ''unsupported operand type(s) for -: datetime.datetime and NoneType''),
           test_world\<lparr>ticks := 2,
                       trace := [GetPulls ''oppia'' ''oppia'' 1 100,
                                 GetTimeline ''oppia'' ''oppia'' 123 1 100,
                                 GetTimeline ''oppia'' ''oppia'' 123 2 100]\<rparr>)"
  by (simp add: get_prs_assigned_to_reviewers_def pulls_loop.simps
      unmatched_env_def unmatched_timeline_def test_env_def test_world_def
      test_assignees_def pull_123_def test_parse_def test_now_def created_event_def
      assigned_event_def get_pull_request_object_from_dict_def timeline_loop.simps
      get_pull_request_dict_with_timestamp_def issue_def from_github_response_def
      assignee_from_github_response_def is_reviewer_assigned_def timedelta_hours_def
      tick_def matching_def)

section \<open>Category resolution\<close>


lemma find_category_id_None:
  "find_category_id (Some name) cats = None \<longleftrightarrow> (\<forall>c \<in> set cats. category_name c \<noteq> name)"
  by (induction cats) auto

lemma find_category_id_Some:
  "find_category_id (Some name) cats = Some cid \<Longrightarrow>
   \<exists>pre c post. cats = pre @ c # post \<and> category_name c = name \<and>
     (\<forall>c' \<in> set pre. category_name c' \<noteq> name) \<and> cid = category_id c"
proof (induction cats)
  case Nil
  then show ?case by simp
next
  case (Cons x cats)
  show ?case
  proof (cases "category_name x = name")
    case True
    with Cons.prems have "cid = category_id x" by simp
    with True show ?thesis by (intro exI[of _ "[]"] exI[of _ x] exI[of _ cats]) simp
  next
    case False
    with Cons.prems have "find_category_id (Some name) cats = Some cid" by simp
    from Cons.IH[OF this] obtain pre c post where
      "cats = pre @ c # post" "category_name c = name"
      "\<forall>c' \<in> set pre. category_name c' \<noteq> name" "cid = category_id c"
      by blast
    with False show ?thesis
      by (intro exI[of _ "x # pre"] exI[of _ c] exI[of _ post]) simp
  qed
qed

text \<open>
  C9: let the service be initialised and the category query answer with the list
  \<open>cats\<close>. When no category of the list has the configured name, \<open>_get_category_id\<close>
  raises the error whose message starts with that name, right after its one request,
  and so do \<open>delete_discussions\<close> and \<open>create_discussion\<close>, which resolve the
  category first and issue no further request. When some category has the name, the
  result is the id of the first such category in list order.
\<close>

theorem category_resolution:
  assumes "token w = Some tk"
    and "categories env org_name repo_name = Inr (Some cats)"
  shows "((\<forall>c \<in> set cats. category_name c \<noteq> name) \<longrightarrow>
            get_category_id env org_name repo_name (Some name) w =
              (Inl (BaseException (name @ '' category is missing in GitHub Discussion.'')),
               issue (PostCategories org_name repo_name) w) \<and>
            delete_discussions env org_name repo_name (Some name) w =
              (Inl (BaseException (name @ '' category is missing in GitHub Discussion.'')),
               issue (PostCategories org_name repo_name) w) \<and>
            create_discussion env org_name repo_name (Some name) discussion_title
                discussion_body w =
              (Inl (BaseException (name @ '' category is missing in GitHub Discussion.'')),
               issue (PostCategories org_name repo_name) w))
         \<and>
         ((\<exists>c \<in> set cats. category_name c = name) \<longrightarrow>
            (\<exists>pre c post. cats = pre @ c # post \<and> category_name c = name \<and>
               (\<forall>c' \<in> set pre. category_name c' \<noteq> name) \<and>
               get_category_id env org_name repo_name (Some name) w =
                 (Inr (category_id c), issue (PostCategories org_name repo_name) w)))"
proof (intro conjI impI)
  assume none: "\<forall>c \<in> set cats. category_name c \<noteq> name"
  then have f: "find_category_id (Some name) cats = None"
    by (simp add: find_category_id_None)
  with assms show g: "get_category_id env org_name repo_name (Some name) w =
              (Inl (BaseException (name @ '' category is missing in GitHub Discussion.'')),
               issue (PostCategories org_name repo_name) w)"
    by (simp add: get_category_id_def py_str_def)
  from g assms(1) show "delete_discussions env org_name repo_name (Some name) w =
              (Inl (BaseException (name @ '' category is missing in GitHub Discussion.'')),
               issue (PostCategories org_name repo_name) w)"
    by (simp add: delete_discussions_def get_discussion_ids_def)
  from g assms(1) show "create_discussion env org_name repo_name (Some name) discussion_title
                discussion_body w =
              (Inl (BaseException (name @ '' category is missing in GitHub Discussion.'')),
               issue (PostCategories org_name repo_name) w)"
    by (simp add: create_discussion_def)
next
  assume "\<exists>c \<in> set cats. category_name c = name"
  then have "find_category_id (Some name) cats \<noteq> None"
    by (simp add: find_category_id_None)
  then obtain cid where cid: "find_category_id (Some name) cats = Some cid" by blast
  from find_category_id_Some[OF cid] obtain pre c post where
    d: "cats = pre @ c # post" "category_name c = name"
      "\<forall>c' \<in> set pre. category_name c' \<noteq> name" "cid = category_id c"
    by blast
  from assms cid d(4)
  have "get_category_id env org_name repo_name (Some name) w =
          (Inr (category_id c), issue (PostCategories org_name repo_name) w)"
    by (simp add: get_category_id_def)
  with d show "\<exists>pre c post. cats = pre @ c # post \<and> category_name c = name \<and>
               (\<forall>c' \<in> set pre. category_name c' \<noteq> name) \<and>
               get_category_id env org_name repo_name (Some name) w =
                 (Inr (category_id c), issue (PostCategories org_name repo_name) w)"
    by blast
qed

theorem category_resolution_witness:
  "get_category_id test_env ''SD-13'' ''test-pending-review-notifier''
     (Some ''no_such_category'') test_world =
     (Inl (BaseException ''no_such_category category is missing in GitHub Discussion.''),
      test_world\<lparr>trace := [PostCategories ''SD-13'' ''test-pending-review-notifier'']\<rparr>)
   \<and> get_category_id test_env ''SD-13'' ''test-pending-review-notifier''
     (Some ''test_category_name_2'') test_world =
     (Inr ''test_category_id_2'',
      test_world\<lparr>trace := [PostCategories ''SD-13'' ''test-pending-review-notifier'']\<rparr>)"
proof -
  have h1: "token test_world = Some ''my_github_token''"
    by (simp add: test_world_def)
  have h2: "categories test_env ''SD-13'' ''test-pending-review-notifier'' = Inr (Some test_categories)"
    by (simp add: test_env_def)
  have a: "\<forall>c \<in> set test_categories. category_name c \<noteq> ''no_such_category''"
    by (simp add: test_categories_def)
  have b: "\<exists>c \<in> set test_categories. category_name c = ''test_category_name_2''"
    by (simp add: test_categories_def)
  from category_resolution[OF h1 h2, of "''no_such_category''"] a
  have A: "get_category_id test_env ''SD-13'' ''test-pending-review-notifier''
     (Some ''no_such_category'') test_world =
     (Inl (BaseException ''no_such_category category is missing in GitHub Discussion.''),
      test_world\<lparr>trace := [PostCategories ''SD-13'' ''test-pending-review-notifier'']\<rparr>)"
    by (simp add: issue_def test_world_def)
  from category_resolution[OF h1 h2, of "''test_category_name_2''"] b
  obtain pre c post where
    d: "test_categories = pre @ c # post" "category_name c = ''test_category_name_2''"
      "\<forall>c' \<in> set pre. category_name c' \<noteq> ''test_category_name_2''"
    and g: "get_category_id test_env ''SD-13'' ''test-pending-review-notifier''
              (Some ''test_category_name_2'') test_world =
            (Inr (category_id c),
             issue (PostCategories ''SD-13'' ''test-pending-review-notifier'') test_world)"
    by blast
  have "c \<in> set test_categories" unfolding d(1) by simp
  with d(2) have "category_id c = ''test_category_id_2''"
    by (auto simp: test_categories_def)
  with g have B: "get_category_id test_env ''SD-13'' ''test-pending-review-notifier''
     (Some ''test_category_name_2'') test_world =
     (Inr ''test_category_id_2'',
      test_world\<lparr>trace := [PostCategories ''SD-13'' ''test-pending-review-notifier'']\<rparr>)"
    by (simp add: issue_def test_world_def)
  from A B show ?thesis by blast
qed

section \<open>Properties of the workflow\<close>


lemmas eval_defs =
  get_prs_assigned_to_reviewers_def pulls_loop.simps timeline_loop.simps
  get_pull_request_object_from_dict_def get_pull_request_dict_with_timestamp_def
  from_github_response_def assignee_from_github_response_def is_reviewer_assigned_def
  timedelta_hours_def tick_def issue_def

text \<open>
  C7: the loop over \<open>required_args\<close> tests the two string literals of the list, not the
  parsed values, so it never raises. With a command line that gives only the token,
  \<open>main\<close> reports no missing argument: it initialises the service, lists the pull
  requests, fetches their timelines and fails only when the staleness loop builds the
  threshold from the missing hours.
\<close>

theorem missing_required_args_not_reported:
  "check_required_args required_args = Inr () \<and>
   main test_env token_only_args initial_world =
     Some (Inl (TypeError ''unsupported type for timedelta hours component: NoneType''),
           \<lparr>token = Some ''githubTokenForApiRequest'', ticks = 1,
            trace = [GetPulls ''oppia'' ''oppia'' 1 100,
                     GetTimeline ''oppia'' ''oppia'' 123 1 100,
                     GetTimeline ''oppia'' ''oppia'' 123 2 100,
                     GetTimeline ''oppia'' ''oppia'' 234 1 100,
                     GetTimeline ''oppia'' ''oppia'' 234 2 100]\<rparr>)"
  by (simp add: main_def required_args_def init_service_def token_only_args_def
      initial_world_def eval_defs test_defs)

section \<open>Requests issued by a run\<close>

lemma object_trace:
  assumes "get_pull_request_object_from_dict env org_name repo_name d w = Some (res, w')"
  shows "\<exists>rs. w' = issue_all rs w \<and> (\<forall>x \<in> set rs. listing_of org_name repo_name x)"
proof (cases "token w")
  case None
  with assms have "w' = w"
    by (simp add: get_pull_request_object_from_dict_def)
  then show ?thesis by (intro exI[of _ "[]"]) (simp add: issue_all_Nil)
next
  case (Some tk)
  with assms obtain lres where
    loop: "timeline_loop env org_name repo_name (number d) (d, None) 1 w = Some (lres, w')"
    by (auto simp: get_pull_request_object_from_dict_def split: option.splits sum.splits prod.splits)
  from timeline_loop_frame[OF loop] obtain rs where
    "w' = issue_all rs w"
    "\<forall>x \<in> set rs. \<exists>p. x = GetTimeline org_name repo_name (number d) p 100"
    by blast
  then show ?thesis by (intro exI[of _ rs]) auto
qed

lemma objects_trace:
  "pull_request_objects env org_name repo_name ds w = Some (res, w') \<Longrightarrow>
   \<exists>rs. w' = issue_all rs w \<and> (\<forall>x \<in> set rs. listing_of org_name repo_name x)"
proof (induction ds arbitrary: w res w')
  case Nil
  then show ?case by (intro exI[of _ "[]"]) (auto simp: issue_all_Nil)
next
  case (Cons d ds)
  from Cons.prems obtain r1 w1 where
    first: "get_pull_request_object_from_dict env org_name repo_name d w = Some (r1, w1)"
    by (cases "get_pull_request_object_from_dict env org_name repo_name d w") auto
  from object_trace[OF first] obtain rs1 where
    rs1: "w1 = issue_all rs1 w" "\<forall>x \<in> set rs1. listing_of org_name repo_name x"
    by blast
  show ?case
  proof (cases r1)
    case (Inl e)
    with Cons.prems first have "w' = w1" by simp
    with rs1 show ?thesis by blast
  next
    case (Inr p)
    with Cons.prems first obtain r2 w2 where
      second: "pull_request_objects env org_name repo_name ds w1 = Some (r2, w2)"
      and w': "w' = w2"
      by (cases "pull_request_objects env org_name repo_name ds w1") (auto split: sum.splits)
    from Cons.IH[OF second] obtain rs2 where
      rs2: "w2 = issue_all rs2 w1" "\<forall>x \<in> set rs2. listing_of org_name repo_name x"
      by blast
    with rs1 w' show ?thesis
      by (intro exI[of _ "rs1 @ rs2"]) (auto simp: issue_all_append)
  qed
qed

lemma all_stamped_dict_append:
  "all_stamped m \<Longrightarrow> stamped p \<Longrightarrow> all_stamped (dict_append k p m)"
  by (induction m) (auto simp: all_stamped_def split: if_splits)

lemma review_assignees_stamped:
  "review_assignees env h p as m w = (Inr m', w') \<Longrightarrow> stamped p \<Longrightarrow> all_stamped m \<Longrightarrow>
   all_stamped m'"
proof (induction as arbitrary: m w)
  case Nil
  then show ?case by simp
next
  case (Cons a as)
  from Cons.prems(1) obtain ts where ts: "assigned_on_timestamp a = Some ts"
    by (cases "assigned_on_timestamp a") auto
  from Cons.prems(1) ts
  have "review_assignees env h p as m (tick w) = (Inr m', w') \<or>
        review_assignees env h p as (dict_append (username a) p m) (tick w) = (Inr m', w')"
    by (auto split: if_splits sum.splits)
  then show ?case
  proof
    assume "review_assignees env h p as m (tick w) = (Inr m', w')"
    from Cons.IH[OF this Cons.prems(2,3)] show ?thesis .
  next
    assume r: "review_assignees env h p as (dict_append (username a) p m) (tick w) = (Inr m', w')"
    from Cons.IH[OF r Cons.prems(2) all_stamped_dict_append[OF Cons.prems(3,2)]]
    show ?thesis .
  qed
qed

lemma review_assignees_Inr_stamped:
  "review_assignees env h p as m w = (Inr m', w') \<Longrightarrow>
   \<forall>a \<in> set as. assigned_on_timestamp a \<noteq> None"
  using review_assignees_fails[of _ as env h p m w] by fastforce

lemma review_pull_requests_stamped:
  "review_pull_requests env h prs m w = (Inr m', w') \<Longrightarrow> all_stamped m \<Longrightarrow> all_stamped m'"
proof (induction prs arbitrary: m w)
  case Nil
  then show ?case by simp
next
  case (Cons p ps)
  show ?case
  proof (cases "is_reviewer_assigned p")
    case False
    with Cons.prems(1) have "review_pull_requests env h ps m w = (Inr m', w')" by simp
    from Cons.IH[OF this Cons.prems(2)] show ?thesis .
  next
    case True
    with Cons.prems(1) obtain m1 w1 where
      a: "review_assignees env h p (assignees p) m w = (Inr m1, w1)"
      and b: "review_pull_requests env h ps m1 w1 = (Inr m', w')"
      by (auto split: sum.splits prod.splits)
    from review_assignees_Inr_stamped[OF a] have "stamped p" by (simp add: stamped_def)
    from review_assignees_stamped[OF a this Cons.prems(2)] have "all_stamped m1" .
    from Cons.IH[OF b this] show ?thesis .
  qed
qed

lemma review_pull_requests_fields:
  assumes "review_pull_requests env h ps m w = (res, w')"
  shows "token w' = token w" and "trace w' = trace w"
proof -
  from review_pull_requests_world[OF assms] have e: "w' = w\<lparr>ticks := ticks w'\<rparr>" .
  from e have "token w' = token (w\<lparr>ticks := ticks w'\<rparr>)" by (rule arg_cong)
  then show "token w' = token w" by simp
  from e have "trace w' = trace (w\<lparr>ticks := ticks w'\<rparr>)" by (rule arg_cong)
  then show "trace w' = trace w" by simp
qed

lemma pulls_loop_effects:
  assumes "pulls_loop env org_name repo_name h m k w = Some (res, w')"
  shows "token w' = token w \<and>
         (\<exists>rs. trace w' = trace w @ rs \<and> (\<forall>x \<in> set rs. listing_of org_name repo_name x)) \<and>
         (all_stamped m \<longrightarrow> (\<forall>m'. res = Inr m' \<longrightarrow> all_stamped m'))"
proof -
  have "token (snd y) = token w \<and>
         (\<exists>rs. trace (snd y) = trace w @ rs \<and> (\<forall>x \<in> set rs. listing_of org_name repo_name x)) \<and>
         (all_stamped m \<longrightarrow> (\<forall>m'. fst y = Inr m' \<longrightarrow> all_stamped m'))"
    if "pulls_loop env org_name repo_name h m k w = Some y" for y
    using that
  proof (induction env org_name repo_name h m k w y rule: pulls_loop.raw_induct[rotated 1, consumes 1])
    case (1 loop env org_name repo_name h m k w y)
    let ?g = "GetPulls org_name repo_name k 100"
    have g: "listing_of org_name repo_name ?g" by simp
    show ?case
    proof (cases "pulls env org_name repo_name k")
      case (Inl e)
      with 1(2) have "y = (Inl e, issue ?g w)" by simp
      then show ?thesis by (simp add: issue_def)
    next
      case (Inr sub)
      show ?thesis
      proof (cases "sub = []")
        case True
        with 1(2) Inr have "y = (Inr m, issue ?g w)" by simp
        then show ?thesis by (simp add: issue_def)
      next
        case False
        with 1(2) Inr obtain r1 w1 where
          o: "pull_request_objects env org_name repo_name sub (issue ?g w) = Some (r1, w1)"
          by (cases "pull_request_objects env org_name repo_name sub (issue ?g w)") auto
        from objects_trace[OF o] obtain rs1 where
          rs1: "w1 = issue_all rs1 (issue ?g w)" "\<forall>x \<in> set rs1. listing_of org_name repo_name x"
          by blast
        have w1: "token w1 = token w" "trace w1 = trace w @ ?g # rs1"
          by (simp_all add: rs1(1) issue_all_fields issue_def)
        show ?thesis
        proof (cases r1)
          case (Inl e)
          with 1(2) Inr False o have "y = (Inl e, w1)" by simp
          with w1 rs1(2) show ?thesis by simp
        next
          case objs: (Inr objs)
          obtain rr w2 where r: "review_pull_requests env h objs m w1 = (rr, w2)"
            by (cases "review_pull_requests env h objs m w1")
          have w2: "token w2 = token w" "trace w2 = trace w @ ?g # rs1"
            using review_pull_requests_fields[OF r] w1 by simp_all
          show ?thesis
          proof (cases rr)
            case (Inl e)
            with 1(2) Inr False o objs r have "y = (Inl e, w2)" by simp
            with w2 rs1(2) show ?thesis by simp
          next
            case m1: (Inr m1)
            with 1(2) Inr False o objs r
            have rec: "loop env org_name repo_name h m1 (k + 1) w2 = Some y" by simp
            from 1(1)[OF rec] obtain rs2 where
              ih: "token (snd y) = token w2" "trace (snd y) = trace w2 @ rs2"
                "\<forall>x \<in> set rs2. listing_of org_name repo_name x"
                "all_stamped m1 \<longrightarrow> (\<forall>m'. fst y = Inr m' \<longrightarrow> all_stamped m')"
              by blast
            have st: "all_stamped m \<longrightarrow> all_stamped m1"
              using review_pull_requests_stamped[of env h objs m w1 m1 w2] r m1 by simp
            have tr: "trace (snd y) = trace w @ (?g # rs1 @ rs2)"
              using ih(2) w2(2) by simp
            have al: "\<forall>x \<in> set (?g # rs1 @ rs2). listing_of org_name repo_name x"
              using rs1(2) ih(3) g by auto
            have c1: "token (snd y) = token w" using ih(1) w2(1) by simp
            have c2: "\<exists>rs. trace (snd y) = trace w @ rs \<and>
                (\<forall>x \<in> set rs. listing_of org_name repo_name x)"
              using tr al by blast
            have c3: "all_stamped m \<longrightarrow> (\<forall>m'. fst y = Inr m' \<longrightarrow> all_stamped m')"
              using ih(4) st by blast
            from c1 c2 c3 show ?thesis by blast
          qed
        qed
      qed
    qed
  qed
  from this[OF assms] show ?thesis by simp
qed


lemma issues_only_refl: "issues_only P w w"
  by (simp add: issues_only_def)

lemma issues_only_same: "trace w' = trace w \<Longrightarrow> issues_only P w w'"
  by (simp add: issues_only_def)

lemma issues_only_trans:
  assumes "issues_only P w w1" and "issues_only P w1 w2"
  shows "issues_only P w w2"
proof -
  from assms obtain rs1 rs2 where
    a: "trace w1 = trace w @ rs1" "\<forall>x \<in> set rs1. P x"
    and b: "trace w2 = trace w1 @ rs2" "\<forall>x \<in> set rs2. P x"
    unfolding issues_only_def by blast
  have "trace w2 = trace w @ (rs1 @ rs2)" using a(1) b(1) by simp
  moreover have "\<forall>x \<in> set (rs1 @ rs2). P x" using a(2) b(2) by auto
  ultimately show ?thesis unfolding issues_only_def by blast
qed

lemma issues_only_issue: "P r \<Longrightarrow> issues_only P w (issue r w)"
  by (simp add: issues_only_def issue_def)

lemma issues_only_mono:
  assumes "issues_only P w w'" and "\<And>x. P x \<Longrightarrow> Q x"
  shows "issues_only Q w w'"
  using assms unfolding issues_only_def by blast

lemma get_category_id_issues:
  "get_category_id env org_name repo_name dc w = (res, w') \<Longrightarrow>
   issues_only (discussion_request env org_name repo_name dc) w w'"
  by (auto simp: get_category_id_def issues_only_refl issues_only_issue
      split: option.splits sum.splits)

lemma get_category_id_Inr:
  "get_category_id env org_name repo_name dc w = (Inr cid, w') \<Longrightarrow>
   (\<exists>cats. categories env org_name repo_name = Inr (Some cats) \<and>
      find_category_id dc cats = Some cid) \<and>
   category_of env org_name repo_name dc cid \<and>
   w' = issue (PostCategories org_name repo_name) w"
  by (auto simp: get_category_id_def category_of_def split: option.splits sum.splits)

lemma get_repository_id_issues:
  "get_repository_id env org_name repo_name w = (res, w') \<Longrightarrow>
   issues_only (discussion_request env org_name repo_name dc) w w'"
  by (auto simp: get_repository_id_def issues_only_refl issues_only_issue
      split: option.splits sum.splits)

lemma get_repository_id_Inr:
  "get_repository_id env org_name repo_name w = (Inr rid, w') \<Longrightarrow>
   repository_id env org_name repo_name = Inr (Some (Some rid))"
  by (auto simp: get_repository_id_def split: option.splits sum.splits)

lemma get_discussion_ids_issues:
  assumes "get_discussion_ids env org_name repo_name dc w = (res, w')"
  shows "issues_only (discussion_request env org_name repo_name dc) w w'"
proof (cases "token w")
  case None
  with assms show ?thesis by (simp add: get_discussion_ids_def issues_only_refl)
next
  case (Some tk)
  obtain r1 w1 where c: "get_category_id env org_name repo_name dc w = (r1, w1)"
    by (cases "get_category_id env org_name repo_name dc w")
  note i1 = get_category_id_issues[OF c]
  show ?thesis
  proof (cases r1)
    case (Inl e)
    with assms Some c have "w' = w1" by (simp add: get_discussion_ids_def)
    with i1 show ?thesis by simp
  next
    case (Inr cid)
    with assms Some c have "w' = issue (PostDiscussions org_name repo_name cid) w1"
      by (auto simp: get_discussion_ids_def split: sum.splits option.splits)
    moreover from get_category_id_Inr[OF c[unfolded Inr]]
    have "category_of env org_name repo_name dc cid" by blast
    ultimately have "issues_only (discussion_request env org_name repo_name dc) w1 w'"
      by (simp add: issues_only_issue)
    with i1 show ?thesis by (rule issues_only_trans)
  qed
qed

lemma get_discussion_ids_Inr:
  assumes "get_discussion_ids env org_name repo_name dc w = (Inr ids, w')"
  shows "ids = listed_discussions env org_name repo_name dc \<and>
         (\<exists>cid. trace w' = trace w @
            [PostCategories org_name repo_name, PostDiscussions org_name repo_name cid])"
proof -
  from assms obtain tk where tk: "token w = Some tk"
    by (cases "token w") (auto simp: get_discussion_ids_def)
  obtain r1 w1 where c: "get_category_id env org_name repo_name dc w = (r1, w1)"
    by (cases "get_category_id env org_name repo_name dc w")
  with assms tk obtain cid where r1: "r1 = Inr cid"
    by (cases r1) (auto simp: get_discussion_ids_def)
  from get_category_id_Inr[OF c[unfolded r1]] obtain cats where
    cats: "categories env org_name repo_name = Inr (Some cats)"
      "find_category_id dc cats = Some cid"
    and w1: "w1 = issue (PostCategories org_name repo_name) w"
    by blast
  from assms tk c r1 obtain nodes where
    nodes: "discussions env org_name repo_name cid = Inr (Some nodes)"
    and ids: "ids = List.map_filter id nodes"
    and w': "w' = issue (PostDiscussions org_name repo_name cid) w1"
    by (auto simp: get_discussion_ids_def split: sum.splits option.splits)
  have "ids = listed_discussions env org_name repo_name dc"
    by (simp add: listed_discussions_def cats nodes ids)
  moreover have "trace w' = trace w @
      [PostCategories org_name repo_name, PostDiscussions org_name repo_name cid]"
    by (simp add: w' w1 issue_def)
  ultimately show ?thesis by blast
qed

lemma delete_each_issues:
  "delete_each env ids w = (res, w') \<Longrightarrow>
   issues_only (\<lambda>x. \<exists>i \<in> set ids. x = PostDeleteDiscussion i) w w'"
proof (induction ids arbitrary: w)
  case Nil
  then show ?case by (simp add: issues_only_refl)
next
  case (Cons i ids)
  let ?w1 = "issue (PostDeleteDiscussion i) w"
  have one: "issues_only (\<lambda>x. \<exists>j \<in> set (i # ids). x = PostDeleteDiscussion j) w ?w1"
    by (rule issues_only_issue) simp
  show ?case
  proof (cases "delete_status env i")
    case (Inl e)
    with Cons.prems have "w' = ?w1" by (simp add: delete_discussion_def)
    with one show ?thesis by simp
  next
    case (Inr u)
    with Cons.prems have "delete_each env ids ?w1 = (res, w')"
      by (simp add: delete_discussion_def)
    from Cons.IH[OF this]
    have "issues_only (\<lambda>x. \<exists>j \<in> set (i # ids). x = PostDeleteDiscussion j) ?w1 w'"
      by (rule issues_only_mono) simp
    with one show ?thesis by (rule issues_only_trans)
  qed
qed

lemma delete_each_Inr:
  "delete_each env ids w = (Inr u, w') \<Longrightarrow>
   trace w' = trace w @ map PostDeleteDiscussion ids"
proof (induction ids arbitrary: w)
  case Nil
  then show ?case by simp
next
  case (Cons i ids)
  let ?w1 = "issue (PostDeleteDiscussion i) w"
  from Cons.prems have "delete_each env ids ?w1 = (Inr u, w')"
    by (cases "delete_status env i") (simp_all add: delete_discussion_def)
  from Cons.IH[OF this] show ?case by (simp add: issue_def)
qed

lemma delete_discussions_issues:
  assumes "delete_discussions env org_name repo_name dc w = (res, w')"
  shows "issues_only (discussion_request env org_name repo_name dc) w w'"
proof (cases "token w")
  case None
  with assms show ?thesis by (simp add: delete_discussions_def issues_only_refl)
next
  case (Some tk)
  obtain r1 w1 where g: "get_discussion_ids env org_name repo_name dc w = (r1, w1)"
    by (cases "get_discussion_ids env org_name repo_name dc w")
  note i1 = get_discussion_ids_issues[OF g]
  show ?thesis
  proof (cases r1)
    case (Inl e)
    with assms Some g have "w' = w1" by (simp add: delete_discussions_def)
    with i1 show ?thesis by simp
  next
    case (Inr ids)
    with assms Some g have d: "delete_each env ids w1 = (res, w')"
      by (simp add: delete_discussions_def)
    from get_discussion_ids_Inr[OF g[unfolded Inr]]
    have ids: "ids = listed_discussions env org_name repo_name dc" by blast
    from delete_each_issues[OF d]
    have "issues_only (discussion_request env org_name repo_name dc) w1 w'"
      by (rule issues_only_mono) (auto simp: ids)
    with i1 show ?thesis by (rule issues_only_trans)
  qed
qed

lemma delete_discussions_Inr:
  assumes "delete_discussions env org_name repo_name dc w = (Inr u, w')"
  shows "\<exists>cid. trace w' = trace w @
           PostCategories org_name repo_name # PostDiscussions org_name repo_name cid #
           map PostDeleteDiscussion (listed_discussions env org_name repo_name dc)"
proof -
  from assms obtain tk where tk: "token w = Some tk"
    by (cases "token w") (auto simp: delete_discussions_def)
  obtain r1 w1 where g: "get_discussion_ids env org_name repo_name dc w = (r1, w1)"
    by (cases "get_discussion_ids env org_name repo_name dc w")
  with assms tk obtain ids where r1: "r1 = Inr ids"
    by (cases r1) (auto simp: delete_discussions_def)
  from assms tk g r1 have d: "delete_each env ids w1 = (Inr u, w')"
    by (simp add: delete_discussions_def)
  from get_discussion_ids_Inr[OF g[unfolded r1]] obtain cid where
    ids: "ids = listed_discussions env org_name repo_name dc"
    and w1: "trace w1 = trace w @
        [PostCategories org_name repo_name, PostDiscussions org_name repo_name cid]"
    by blast
  from delete_each_Inr[OF d] have "trace w' = trace w1 @ map PostDeleteDiscussion ids" .
  with ids w1 show ?thesis by simp
qed

lemma create_discussion_issues:
  assumes "create_discussion env org_name repo_name dc t b w = (res, w')"
  shows "issues_only (discussion_request env org_name repo_name dc) w w'"
proof (cases "token w")
  case None
  with assms show ?thesis by (simp add: create_discussion_def issues_only_refl)
next
  case (Some tk)
  obtain r1 w1 where c: "get_category_id env org_name repo_name dc w = (r1, w1)"
    by (cases "get_category_id env org_name repo_name dc w")
  note i1 = get_category_id_issues[OF c]
  show ?thesis
  proof (cases r1)
    case (Inl e)
    with assms Some c have "w' = w1" by (simp add: create_discussion_def)
    with i1 show ?thesis by simp
  next
    case cid: (Inr cid)
    obtain r2 w2 where r: "get_repository_id env org_name repo_name w1 = (r2, w2)"
      by (cases "get_repository_id env org_name repo_name w1")
    note i2 = issues_only_trans[OF i1 get_repository_id_issues[OF r]]
    show ?thesis
    proof (cases r2)
      case (Inl e)
      with assms Some c cid r have "w' = w2" by (simp add: create_discussion_def)
      with i2 show ?thesis by simp
    next
      case (Inr rid)
      with assms Some c cid r have "w' = issue (PostCreateDiscussion rid cid t b) w2"
        by (auto simp: create_discussion_def split: sum.splits)
      moreover have "discussion_request env org_name repo_name dc (PostCreateDiscussion rid cid t b)"
        using get_repository_id_Inr[OF r[unfolded Inr]] get_category_id_Inr[OF c[unfolded cid]]
        by simp
      ultimately have "issues_only (discussion_request env org_name repo_name dc) w2 w'"
        by (simp add: issues_only_issue)
      with i2 show ?thesis by (rule issues_only_trans)
    qed
  qed
qed

lemma pr_list_messages_trace:
  "pr_list_messages env u ps w = (res, w') \<Longrightarrow> trace w' = trace w"
proof (induction ps arbitrary: w res w')
  case Nil
  then show ?case by simp
next
  case (Cons p ps)
  show ?case
  proof (cases "get_assignee p u")
    case None
    with Cons.prems have "pr_list_messages env u ps w = (res, w')" by simp
    from Cons.IH[OF this] show ?thesis .
  next
    case (Some a)
    show ?thesis
    proof (cases "assigned_on_timestamp a")
      case None
      with Cons.prems Some have "w' = tick w" by (simp add: get_waiting_time_def)
      then show ?thesis by (simp add: tick_def)
    next
      case ts: (Some ts)
      obtain r2 w2 where r: "pr_list_messages env u ps (tick w) = (r2, w2)"
        by (cases "pr_list_messages env u ps (tick w)")
      with Cons.prems Some ts have "w' = w2"
        by (auto simp: get_waiting_time_def split: sum.splits)
      with Cons.IH[OF r] show ?thesis by (simp add: tick_def)
    qed
  qed
qed

lemma generate_message_trace:
  assumes "generate_message env u ps tp w = (res, w')"
  shows "trace w' = trace w"
proof -
  obtain r1 w1 where p: "pr_list_messages env u ps w = (r1, w1)"
    by (cases "pr_list_messages env u ps w")
  with assms have "w' = w1"
    by (auto simp: generate_message_def split: sum.splits if_splits)
  with pr_list_messages_trace[OF p] show ?thesis by simp
qed

lemma notify_reviewers_issues:
  "notify_reviewers env org_name repo_name dc m w = (res, w') \<Longrightarrow>
   issues_only (discussion_request env org_name repo_name dc) w w'"
proof (induction m arbitrary: w)
  case Nil
  then show ?case by (simp add: issues_only_refl)
next
  case (Cons ups m)
  obtain reviewer_name pr_list where ups: "ups = (reviewer_name, pr_list)" by (cases ups)
  obtain r1 w1 where g: "generate_message env reviewer_name pr_list TEMPLATE_PATH w = (r1, w1)"
    by (cases "generate_message env reviewer_name pr_list TEMPLATE_PATH w")
  have i1: "issues_only (discussion_request env org_name repo_name dc) w w1"
    by (rule issues_only_same) (rule generate_message_trace[OF g])
  show ?case
  proof (cases r1)
    case (Inl e)
    with Cons.prems ups g have "w' = w1" by simp
    with i1 show ?thesis by simp
  next
    case body: (Inr body)
    obtain r2 w2 where c: "create_discussion env org_name repo_name dc
        (''Pending Reviews: @'' @ reviewer_name) body w1 = (r2, w2)"
      by (cases "create_discussion env org_name repo_name dc
        (''Pending Reviews: @'' @ reviewer_name) body w1")
    note i2 = issues_only_trans[OF i1 create_discussion_issues[OF c]]
    show ?thesis
    proof (cases r2)
      case (Inl e)
      with Cons.prems ups g body c have "w' = w2" by simp
      with i2 show ?thesis by simp
    next
      case (Inr v)
      with Cons.prems ups g body c
      have "notify_reviewers env org_name repo_name dc m w2 = (res, w')" by simp
      from issues_only_trans[OF i2 Cons.IH[OF this]] show ?thesis .
    qed
  qed
qed


lemma get_category_id_first:
  "token w = Some tk \<Longrightarrow> get_category_id env org_name repo_name dc w = (res, w') \<Longrightarrow>
   w' = issue (PostCategories org_name repo_name) w"
  by (auto simp: get_category_id_def split: option.splits sum.splits)

lemma delete_discussions_first:
  assumes "token w = Some tk"
    and "delete_discussions env org_name repo_name dc w = (res, w')"
  shows "\<exists>rs. trace w' = trace w @ PostCategories org_name repo_name # rs \<and>
              (\<forall>x \<in> set rs. discussion_request env org_name repo_name dc x)"
proof -
  let ?P = "discussion_request env org_name repo_name dc"
  let ?w1 = "issue (PostCategories org_name repo_name) w"
  obtain r1 w1 where c: "get_category_id env org_name repo_name dc w = (r1, w1)"
    by (cases "get_category_id env org_name repo_name dc w")
  from get_category_id_first[OF assms(1) c] have w1: "w1 = ?w1" .
  have "issues_only ?P ?w1 w'"
  proof (cases r1)
    case (Inl e)
    with assms c have "w' = w1"
      by (simp add: delete_discussions_def get_discussion_ids_def)
    with w1 show ?thesis by (simp add: issues_only_refl)
  next
    case (Inr cid)
    let ?w2 = "issue (PostDiscussions org_name repo_name cid) w1"
    from get_category_id_Inr[OF c[unfolded Inr]]
    have "category_of env org_name repo_name dc cid" by blast
    then have i2: "issues_only ?P w1 ?w2" by (simp add: issues_only_issue)
    show ?thesis
    proof (cases "discussions env org_name repo_name cid")
      case e: (Inl e)
      with assms c Inr have "w' = ?w2"
        by (simp add: delete_discussions_def get_discussion_ids_def)
      with i2 w1 show ?thesis by simp
    next
      case nodes: (Inr nodes)
      show ?thesis
      proof (cases nodes)
        case None
        with assms c Inr nodes have "w' = ?w2"
          by (simp add: delete_discussions_def get_discussion_ids_def)
        with i2 w1 show ?thesis by simp
      next
        case (Some ns)
        with assms c Inr nodes
        have d: "delete_each env (List.map_filter id ns) ?w2 = (res, w')"
          by (simp add: delete_discussions_def get_discussion_ids_def)
        have ids: "List.map_filter id ns = listed_discussions env org_name repo_name dc"
          using get_category_id_Inr[OF c[unfolded Inr]] nodes Some
          by (auto simp: listed_discussions_def)
        from delete_each_issues[OF d] have "issues_only ?P ?w2 w'"
          by (rule issues_only_mono) (auto simp: ids)
        from issues_only_trans[OF i2 this] w1 show ?thesis by simp
      qed
    qed
  qed
  then obtain rs where "trace w' = trace ?w1 @ rs" "\<forall>x \<in> set rs. ?P x"
    unfolding issues_only_def by blast
  then show ?thesis by (intro exI[of _ rs]) (simp add: issue_def)
qed

lemma pulls_loop_first:
  assumes "pulls_loop env org_name repo_name h m k w = Some (res, w')"
  shows "\<exists>rs. trace w' = trace w @ GetPulls org_name repo_name k 100 # rs \<and>
              (\<forall>x \<in> set rs. listing_of org_name repo_name x)"
proof -
  let ?g = "GetPulls org_name repo_name k 100"
  show ?thesis
  proof (cases "pulls env org_name repo_name k")
    case (Inl e)
    with assms have "w' = issue ?g w" by (subst (asm) pulls_loop.simps) simp
    then show ?thesis by (intro exI[of _ "[]"]) (simp add: issue_def)
  next
    case (Inr sub)
    show ?thesis
    proof (cases "sub = []")
      case True
      with assms Inr have "w' = issue ?g w" by (subst (asm) pulls_loop.simps) simp
      then show ?thesis by (intro exI[of _ "[]"]) (simp add: issue_def)
    next
      case False
      from assms Inr False obtain r1 w1 where
        o: "pull_request_objects env org_name repo_name sub (issue ?g w) = Some (r1, w1)"
        by (subst (asm) pulls_loop.simps)
           (cases "pull_request_objects env org_name repo_name sub (issue ?g w)", auto)
      from objects_trace[OF o] obtain rs1 where
        rs1: "w1 = issue_all rs1 (issue ?g w)" "\<forall>x \<in> set rs1. listing_of org_name repo_name x"
        by blast
      have w1: "trace w1 = trace w @ ?g # rs1"
        by (simp add: rs1(1) issue_all_fields issue_def)
      show ?thesis
      proof (cases r1)
        case (Inl e)
        with assms Inr False o have "w' = w1" by (subst (asm) pulls_loop.simps) simp
        with w1 rs1(2) show ?thesis by blast
      next
        case objs: (Inr objs)
        obtain rr w2 where r: "review_pull_requests env h objs m w1 = (rr, w2)"
          by (cases "review_pull_requests env h objs m w1")
        have w2: "trace w2 = trace w @ ?g # rs1"
          using review_pull_requests_fields[OF r] w1 by simp
        show ?thesis
        proof (cases rr)
          case (Inl e)
          with assms Inr False o objs r have "w' = w2"
            by (subst (asm) pulls_loop.simps) simp
          with w2 rs1(2) show ?thesis by blast
        next
          case m1: (Inr m1)
          with assms Inr False o objs r
          have rec: "pulls_loop env org_name repo_name h m1 (k + 1) w2 = Some (res, w')"
            by (subst (asm) pulls_loop.simps) simp
          from pulls_loop_effects[OF rec] obtain rs2 where
            rs2: "trace w' = trace w2 @ rs2" "\<forall>x \<in> set rs2. listing_of org_name repo_name x"
            by blast
          have "trace w' = trace w @ ?g # (rs1 @ rs2)" using rs2(1) w2 by simp
          moreover have "\<forall>x \<in> set (rs1 @ rs2). listing_of org_name repo_name x"
            using rs1(2) rs2(2) by auto
          ultimately show ?thesis by blast
        qed
      qed
    qed
  qed
qed

section \<open>The targets of a run\<close>

lemma main_requests:
  assumes "main env parsed w = Some (res, w')"
  shows "\<exists>ls ds. trace w' = trace w @ ls @ ds \<and>
         (\<forall>x \<in> set ls. listing_of ''oppia'' ''oppia'' x) \<and>
         (\<forall>x \<in> set ds. discussion_request env ''SD-13'' ''test-pending-review-notifier''
                           (arg_category parsed) x) \<and>
         ((\<exists>tk. arg_token parsed = Some tk \<and> tk \<noteq> '''') \<longrightarrow>
            ls \<noteq> [] \<and> hd ls = GetPulls ''oppia'' ''oppia'' 1 100) \<and>
         (res = Inr () \<longrightarrow>
            ls \<noteq> [] \<and> hd ls = GetPulls ''oppia'' ''oppia'' 1 100 \<and>
            ds \<noteq> [] \<and> hd ds = PostCategories ''SD-13'' ''test-pending-review-notifier'')"
proof -
  let ?P = "discussion_request env ''SD-13'' ''test-pending-review-notifier'' (arg_category parsed)"
  let ?G = "GetPulls ''oppia'' ''oppia'' 1 100"
  let ?C = "PostCategories ''SD-13'' ''test-pending-review-notifier''"
  have req: "check_required_args required_args = Inr ()"
    by (simp add: required_args_def)
  show ?thesis
  proof (cases "arg_token parsed = None \<or> arg_token parsed = Some ''''")
    case True
    with assms req have "res = Inl (BaseException ''Must provide a valid GitHub Personal Access Token.'')"
      and "w' = w"
      by (auto simp: main_def init_service_def)
    with True show ?thesis
      by (intro exI[of _ "[]"]) auto
  next
    case False
    then obtain tk where tk: "arg_token parsed = Some tk" "tk \<noteq> ''''" by auto
    define w1 where "w1 = w\<lparr>token := Some tk\<rparr>"
    have init: "init_service (arg_token parsed) w = (Inr (), w1)"
      using tk by (simp add: init_service_def w1_def)
    have w1: "token w1 = Some tk" "trace w1 = trace w" by (simp_all add: w1_def)
    have g: "get_prs_assigned_to_reviewers env ''oppia'' ''oppia'' (arg_max_wait_hours parsed) w1 =
        pulls_loop env ''oppia'' ''oppia'' (arg_max_wait_hours parsed) [] 1 w1"
      using w1(1) by (simp add: get_prs_assigned_to_reviewers_def)
    from assms req init obtain r2 w2 where
      gp: "get_prs_assigned_to_reviewers env ''oppia'' ''oppia'' (arg_max_wait_hours parsed) w1 =
             Some (r2, w2)"
      by (cases "get_prs_assigned_to_reviewers env ''oppia'' ''oppia''
                   (arg_max_wait_hours parsed) w1") (auto simp: main_def)
    with g have
      loop: "pulls_loop env ''oppia'' ''oppia'' (arg_max_wait_hours parsed) [] 1 w1 = Some (r2, w2)"
      by simp
    from pulls_loop_first[OF loop] obtain rs where
      rs: "trace w2 = trace w @ ?G # rs" "\<forall>x \<in> set rs. listing_of ''oppia'' ''oppia'' x"
      using w1(2) by auto
    from pulls_loop_effects[OF loop] have tw2: "token w2 = Some tk" using w1(1) by simp
    have lsok: "\<forall>x \<in> set (?G # rs). listing_of ''oppia'' ''oppia'' x" using rs(2) by simp
    show ?thesis
    proof (cases r2)
      case (Inl e)
      with assms req init gp have "res = Inl e" "w' = w2"
        by (simp_all add: main_def)
      with rs lsok show ?thesis
        by (intro exI[of _ "?G # rs"] exI[of _ "[]"]) simp
    next
      case m: (Inr m)
      obtain r3 w3 where
        del: "delete_discussions env ''SD-13'' ''test-pending-review-notifier''
                (arg_category parsed) w2 = (r3, w3)"
        by (cases "delete_discussions env ''SD-13'' ''test-pending-review-notifier''
                (arg_category parsed) w2")
      from delete_discussions_first[OF tw2 del] obtain rs3 where
        rs3: "trace w3 = trace w2 @ ?C # rs3" "\<forall>x \<in> set rs3. ?P x"
        by blast
      show ?thesis
      proof (cases r3)
        case (Inl e)
        with assms req init gp m del have "res = Inl e" "w' = w3"
          by (simp_all add: main_def)
        moreover have "\<forall>x \<in> set (?C # rs3). ?P x" using rs3(2) by simp
        ultimately show ?thesis using rs rs3(1) lsok
          by (intro exI[of _ "?G # rs"] exI[of _ "?C # rs3"]) simp
      next
        case (Inr u)
        with assms req init gp m del
        have n: "notify_reviewers env ''SD-13'' ''test-pending-review-notifier''
                   (arg_category parsed) m w3 = (res, w')"
          by (simp add: main_def)
        from notify_reviewers_issues[OF n] obtain rs4 where
          rs4: "trace w' = trace w3 @ rs4" "\<forall>x \<in> set rs4. ?P x"
          unfolding issues_only_def by blast
        have tr: "trace w' = trace w @ (?G # rs) @ (?C # rs3 @ rs4)"
          using rs(1) rs3(1) rs4(1) by simp
        have dsok: "\<forall>x \<in> set (?C # rs3 @ rs4). ?P x" using rs3(2) rs4(2) by auto
        show ?thesis
          using tr lsok dsok
          by (intro exI[of _ "?G # rs"] exI[of _ "?C # rs3 @ rs4"]) simp
      qed
    qed
  qed
qed

lemma main_cong:
  assumes "arg_token p = arg_token q" and "arg_max_wait_hours p = arg_max_wait_hours q"
    and "arg_category p = arg_category q"
  shows "main env p w = main env q w"
  unfolding main_def assms by (rule refl)

lemma test_listing:
  "get_prs_assigned_to_reviewers test_env ''oppia'' ''oppia'' (Some 20)
     (initial_world\<lparr>token := Some ''githubTokenForApiRequest''\<rparr>) =
   Some (Inr test_overdue, listed_world)"
  by (simp add: eval_defs test_defs initial_world_def test_overdue_def listed_world_def
      object_123_def object_234_def)

lemma missing_template_listing:
  "get_prs_assigned_to_reviewers missing_template_env ''oppia'' ''oppia'' (Some 20)
     (initial_world\<lparr>token := Some ''githubTokenForApiRequest''\<rparr>) =
   Some (Inr test_overdue, listed_world)"
  by (simp add: eval_defs test_defs initial_world_def test_overdue_def listed_world_def
      object_123_def object_234_def missing_template_env_def)

lemmas discussion_defs =
  delete_discussions_def get_discussion_ids_def get_category_id_def get_repository_id_def
  delete_discussion_def create_discussion_def test_categories_def List.map_filter_def
  issue_def

lemma test_deletion:
  "delete_discussions test_env ''SD-13'' ''test-pending-review-notifier''
     (Some ''test_category_name_1'') listed_world = (Inr (), deleted_world)"
  by (simp add: discussion_defs test_env_def listed_world_def deleted_world_def
      deletion_trace_def)

lemma missing_template_deletion:
  "delete_discussions missing_template_env ''SD-13'' ''test-pending-review-notifier''
     (Some ''test_category_name_1'') listed_world = (Inr (), deleted_world)"
  by (simp add: discussion_defs test_env_def listed_world_def deleted_world_def
      deletion_trace_def missing_template_env_def)

lemmas message_defs =
  generate_message_def get_assignee_def get_waiting_time_def re_sub_def match_token_def
  str_int_def newline_def TEMPLATE_PATH_def tick_def test_template_def

lemma test_message_1:
  "generate_message test_env ''reviewerName1'' [object_123, object_234] TEMPLATE_PATH
     deleted_world = (Inr test_body_1, deleted_world\<lparr>ticks := 6\<rparr>)"
  by (simp add: message_defs test_env_def test_now_def object_123_def object_234_def
      deleted_world_def listed_world_def test_body_1_def)

lemma test_message_2:
  "generate_message test_env ''reviewerName2'' [object_123] TEMPLATE_PATH
     w = (Inr test_body_2, tick w)"
  by (simp add: message_defs test_env_def test_now_def object_123_def object_234_def
      test_body_2_def)

lemma test_creation:
  "token w \<noteq> None \<Longrightarrow>
   create_discussion test_env ''SD-13'' ''test-pending-review-notifier''
     (Some ''test_category_name_1'') t b w =
   (Inr (), w\<lparr>trace := trace w @
      [PostCategories ''SD-13'' ''test-pending-review-notifier'',
       PostRepository ''SD-13'' ''test-pending-review-notifier'',
       PostCreateDiscussion ''test_repository_id'' ''test_category_id_1'' t b]\<rparr>)"
  by (cases "token w") (simp_all add: discussion_defs test_env_def)

lemma test_notifications:
  "notify_reviewers test_env ''SD-13'' ''test-pending-review-notifier''
     (Some ''test_category_name_1'') test_overdue deleted_world =
   (Inr (), deleted_world\<lparr>ticks := 7, trace := trace deleted_world @ creation_trace\<rparr>)"
proof -
  have tk: "token deleted_world \<noteq> None"
    by (simp add: deleted_world_def listed_world_def)
  show ?thesis
    unfolding test_overdue_def
    by (simp add: test_message_1 test_message_2 test_creation tk tick_def creation_trace_def)
qed

lemma test_main:
  "main test_env test_args initial_world =
     Some (Inr (),
           deleted_world\<lparr>ticks := 7, trace := trace deleted_world @ creation_trace\<rparr>)"
proof -
  have "init_service (arg_token test_args) initial_world =
      (Inr (), initial_world\<lparr>token := Some ''githubTokenForApiRequest''\<rparr>)"
    by (simp add: init_service_def test_args_def)
  moreover have "arg_max_wait_hours test_args = Some 20"
    "arg_category test_args = Some ''test_category_name_1''"
    by (simp_all add: test_args_def)
  moreover have "check_required_args required_args = Inr ()"
    by (simp add: required_args_def)
  ultimately show ?thesis
    by (simp add: main_def test_listing test_deletion test_notifications)
qed

text \<open>
  C8: \<open>main\<close> never reads the \<open>--repo\<close> argument: a run with any other value for it
  is the same run. Whenever \<open>main\<close> returns, the requests it has issued are listing
  requests (pull request pages and timeline pages) for \<open>oppia/oppia\<close>, followed by
  discussion requests for \<open>SD-13/test-pending-review-notifier\<close>: queries that name this
  repository, deletions of discussions listed in its category, creations under its id
  and its category's id. With a usable token the first request asks for page 1 of the
  pull requests of \<open>oppia/oppia\<close>, and a run that ends without an error has gone on to
  query the categories of \<open>SD-13/test-pending-review-notifier\<close>. The two repositories
  differ.
\<close>

theorem repo_argument_ignored:
  "main env (parsed\<lparr>arg_repo := repo\<rparr>) w = main env parsed w \<and>
   (\<forall>res w'. main env parsed w = Some (res, w') \<longrightarrow>
      (\<exists>ls ds. trace w' = trace w @ ls @ ds \<and>
         (\<forall>x \<in> set ls. listing_of ''oppia'' ''oppia'' x) \<and>
         (\<forall>x \<in> set ds. discussion_request env ''SD-13'' ''test-pending-review-notifier''
                           (arg_category parsed) x) \<and>
         ((\<exists>tk. arg_token parsed = Some tk \<and> tk \<noteq> '''') \<longrightarrow>
            ls \<noteq> [] \<and> hd ls = GetPulls ''oppia'' ''oppia'' 1 100) \<and>
         (res = Inr () \<longrightarrow>
            ls \<noteq> [] \<and> hd ls = GetPulls ''oppia'' ''oppia'' 1 100 \<and>
            ds \<noteq> [] \<and> hd ds = PostCategories ''SD-13'' ''test-pending-review-notifier''))) \<and>
   (''oppia'', ''oppia'') \<noteq> (''SD-13'', ''test-pending-review-notifier'')"
proof -
  have "main env (parsed\<lparr>arg_repo := repo\<rparr>) w = main env parsed w"
    by (rule main_cong) simp_all
  moreover have "(''oppia'', ''oppia'') \<noteq> (''SD-13'', ''test-pending-review-notifier'')"
    by simp
  ultimately show ?thesis using main_requests[of env parsed w] by blast
qed

theorem repo_argument_ignored_witness:
  "main test_env (test_args\<lparr>arg_repo := Some ''SD-13/test-pending-review-notifier''\<rparr>)
     initial_world =
     Some (Inr (),
           deleted_world\<lparr>ticks := 7, trace := trace deleted_world @ creation_trace\<rparr>) \<and>
   (\<exists>ls ds. trace listed_world @ deletion_trace @ creation_trace = ls @ ds \<and>
      (\<forall>x \<in> set ls. listing_of ''oppia'' ''oppia'' x) \<and>
      (\<forall>x \<in> set ds. discussion_request test_env ''SD-13'' ''test-pending-review-notifier''
                        (Some ''test_category_name_1'') x) \<and>
      hd ls = GetPulls ''oppia'' ''oppia'' 1 100 \<and>
      hd ds = PostCategories ''SD-13'' ''test-pending-review-notifier'')"
proof -
  let ?w = "deleted_world\<lparr>ticks := 7, trace := trace deleted_world @ creation_trace\<rparr>"
  note inst = repo_argument_ignored
    [where env = test_env and parsed = test_args and w = initial_world
       and repo = "Some ''SD-13/test-pending-review-notifier''"]
  from inst have a: "main test_env
      (test_args\<lparr>arg_repo := Some ''SD-13/test-pending-review-notifier''\<rparr>) initial_world =
      main test_env test_args initial_world"
    by blast
  from inst test_main
  have "\<exists>ls ds. trace ?w = trace initial_world @ ls @ ds \<and>
         (\<forall>x \<in> set ls. listing_of ''oppia'' ''oppia'' x) \<and>
         (\<forall>x \<in> set ds. discussion_request test_env ''SD-13'' ''test-pending-review-notifier''
                           (arg_category test_args) x) \<and>
         ((\<exists>tk. arg_token test_args = Some tk \<and> tk \<noteq> '''') \<longrightarrow>
            ls \<noteq> [] \<and> hd ls = GetPulls ''oppia'' ''oppia'' 1 100) \<and>
         (Inr () = (Inr () :: exn + unit) \<longrightarrow>
            ls \<noteq> [] \<and> hd ls = GetPulls ''oppia'' ''oppia'' 1 100 \<and>
            ds \<noteq> [] \<and> hd ds = PostCategories ''SD-13'' ''test-pending-review-notifier'')"
    by blast
  then obtain ls ds where
    b: "trace ?w = trace initial_world @ ls @ ds"
      "\<forall>x \<in> set ls. listing_of ''oppia'' ''oppia'' x"
      "\<forall>x \<in> set ds. discussion_request test_env ''SD-13'' ''test-pending-review-notifier''
                           (arg_category test_args) x"
      "hd ls = GetPulls ''oppia'' ''oppia'' 1 100"
      "hd ds = PostCategories ''SD-13'' ''test-pending-review-notifier''"
    by blast
  from b(1) have "trace listed_world @ deletion_trace @ creation_trace = ls @ ds"
    by (simp add: deleted_world_def initial_world_def)
  moreover from b(3) have "\<forall>x \<in> set ds. discussion_request test_env ''SD-13''
      ''test-pending-review-notifier'' (Some ''test_category_name_1'') x"
    by (simp add: test_args_def)
  ultimately show ?thesis using a test_main b(2,4,5) by auto
qed

section \<open>A missing template\<close>

lemma pr_list_messages_succeeds:
  "\<forall>p \<in> set ps. stamped p \<Longrightarrow> \<exists>msgs w'. pr_list_messages env u ps w = (Inr msgs, w')"
proof (induction ps arbitrary: w)
  case Nil
  show ?case by simp
next
  case (Cons p ps)
  then have rest: "\<And>w. \<exists>msgs w'. pr_list_messages env u ps w = (Inr msgs, w')" by simp
  show ?case
  proof (cases "get_assignee p u")
    case None
    with rest[of w] show ?thesis by simp
  next
    case (Some a)
    then have "a \<in> set (assignees p)"
      by (auto simp: get_assignee_def find_Some_iff)
    with Cons.prems obtain ts where ts: "assigned_on_timestamp a = Some ts"
      by (auto simp: stamped_def)
    from rest[of "tick w"] obtain msgs w' where
      "pr_list_messages env u ps (tick w) = (Inr msgs, w')" by blast
    with Some ts show ?thesis by (simp add: get_waiting_time_def)
  qed
qed

lemma generate_message_missing_template:
  assumes "\<not> path_exists env tp" and "\<forall>p \<in> set ps. stamped p"
  shows "\<exists>w'. generate_message env u ps tp w =
            (Inl (BaseException (''Please add a template file at: '' @ tp)), w') \<and>
          trace w' = trace w"
proof -
  from pr_list_messages_succeeds[OF assms(2)] obtain msgs w' where
    p: "pr_list_messages env u ps w = (Inr msgs, w')" by blast
  with assms(1) have "generate_message env u ps tp w =
      (Inl (BaseException (''Please add a template file at: '' @ tp)), w')"
    by (simp add: generate_message_def)
  with pr_list_messages_trace[OF p] show ?thesis by blast
qed

text \<open>
  C6 (amended): \<open>generate_message\<close> tests for the template only after it has rendered
  the reviewer's lines, and \<open>main\<close> calls it only after \<open>delete_discussions\<close>. So
  when the template file is missing and the run gets as far as the notifications (the
  service is initialised, the listing returns its map \<open>m\<close>, the old discussions are
  deleted without error), the discussion requests of the deletion have all been made:
  the category query, the listing of the category's discussions and one deletion for
  each listed discussion. With a non-empty \<open>m\<close> the run then fails with the error that
  names the template path, before any further request, so that no discussion is
  created; with an empty \<open>m\<close> it ends without an error.
\<close>

theorem missing_template_fails_after_deletion:
  assumes "\<not> path_exists env TEMPLATE_PATH"
    and "init_service (arg_token parsed) w = (Inr (), w1)"
    and "get_prs_assigned_to_reviewers env ''oppia'' ''oppia'' (arg_max_wait_hours parsed) w1 =
           Some (Inr m, w2)"
    and "delete_discussions env ''SD-13'' ''test-pending-review-notifier''
           (arg_category parsed) w2 = (Inr (), w3)"
  shows "\<exists>w'. main env parsed w =
            Some (if m = [] then Inr ()
                  else Inl (BaseException
                    ''Please add a template file at: .github/PENDING_REVIEW_NOTIFICATION_TEMPLATE.md''),
                  w') \<and>
          trace w' = trace w3 \<and>
          (\<exists>cid. trace w3 = trace w2 @
             PostCategories ''SD-13'' ''test-pending-review-notifier'' #
             PostDiscussions ''SD-13'' ''test-pending-review-notifier'' cid #
             map PostDeleteDiscussion
               (listed_discussions env ''SD-13'' ''test-pending-review-notifier''
                  (arg_category parsed)))"
proof -
  have req: "check_required_args required_args = Inr ()"
    by (simp add: required_args_def)
  have run: "main env parsed w =
      Some (notify_reviewers env ''SD-13'' ''test-pending-review-notifier''
              (arg_category parsed) m w3)"
    using req assms(2,3,4) by (simp add: main_def)
  from assms(3) obtain tk where "token w1 = Some tk"
    by (cases "token w1") (auto simp: get_prs_assigned_to_reviewers_def)
  with assms(3) have
    "pulls_loop env ''oppia'' ''oppia'' (arg_max_wait_hours parsed) [] 1 w1 = Some (Inr m, w2)"
    by (simp add: get_prs_assigned_to_reviewers_def)
  from pulls_loop_effects[OF this] have st: "all_stamped m"
    by (simp add: all_stamped_def)
  from delete_discussions_Inr[OF assms(4)] obtain cid where
    del: "trace w3 = trace w2 @
             PostCategories ''SD-13'' ''test-pending-review-notifier'' #
             PostDiscussions ''SD-13'' ''test-pending-review-notifier'' cid #
             map PostDeleteDiscussion
               (listed_discussions env ''SD-13'' ''test-pending-review-notifier''
                  (arg_category parsed))"
    by blast
  show ?thesis
  proof (cases m)
    case Nil
    with run have "main env parsed w = Some (Inr (), w3)" by simp
    with Nil del show ?thesis by auto
  next
    case (Cons ups rest)
    obtain u ps where ups: "ups = (u, ps)" by (cases ups)
    from st Cons ups have "\<forall>p \<in> set ps. stamped p"
      by (auto simp: all_stamped_def)
    from generate_message_missing_template[OF assms(1) this, of u w3] obtain w' where
      g: "generate_message env u ps TEMPLATE_PATH w3 =
            (Inl (BaseException (''Please add a template file at: '' @ TEMPLATE_PATH)), w')"
      and tr: "trace w' = trace w3"
      by blast
    from run Cons ups g have "main env parsed w =
        Some (Inl (BaseException (''Please add a template file at: '' @ TEMPLATE_PATH)), w')"
      by simp
    with Cons tr del show ?thesis by (auto simp: TEMPLATE_PATH_def)
  qed
qed

theorem missing_template_fails_after_deletion_witness:
  "\<exists>w'. main missing_template_env test_args initial_world =
          Some (Inl (BaseException
            ''Please add a template file at: .github/PENDING_REVIEW_NOTIFICATION_TEMPLATE.md''),
                w') \<and>
        trace w' = trace listed_world @ deletion_trace"
proof -
  have h1: "\<not> path_exists missing_template_env TEMPLATE_PATH"
    by (simp add: missing_template_env_def)
  have h2: "init_service (arg_token test_args) initial_world =
      (Inr (), initial_world\<lparr>token := Some ''githubTokenForApiRequest''\<rparr>)"
    by (simp add: init_service_def test_args_def)
  have h3: "get_prs_assigned_to_reviewers missing_template_env ''oppia'' ''oppia''
      (arg_max_wait_hours test_args)
      (initial_world\<lparr>token := Some ''githubTokenForApiRequest''\<rparr>) =
      Some (Inr test_overdue, listed_world)"
    using missing_template_listing by (simp add: test_args_def)
  have h4: "delete_discussions missing_template_env ''SD-13'' ''test-pending-review-notifier''
      (arg_category test_args) listed_world = (Inr (), deleted_world)"
    using missing_template_deletion by (simp add: test_args_def)
  from missing_template_fails_after_deletion[OF h1 h2 h3 h4]
  obtain w' where "main missing_template_env test_args initial_world =
          Some (Inl (BaseException
            ''Please add a template file at: .github/PENDING_REVIEW_NOTIFICATION_TEMPLATE.md''),
                w')"
    and "trace w' = trace listed_world @ deletion_trace"
    by (auto simp: test_overdue_def deleted_world_def)
  then show ?thesis by blast
qed

theorem missing_template_counterexample:
  "\<not> path_exists missing_template_env TEMPLATE_PATH \<and>
   main missing_template_env test_args initial_world =
     Some (Inl (BaseException
             ''Please add a template file at: .github/PENDING_REVIEW_NOTIFICATION_TEMPLATE.md''),
           \<lparr>token = Some ''githubTokenForApiRequest'', ticks = 6,
            trace = [GetPulls ''oppia'' ''oppia'' 1 100,
                     GetTimeline ''oppia'' ''oppia'' 123 1 100,
                     GetTimeline ''oppia'' ''oppia'' 123 2 100,
                     GetTimeline ''oppia'' ''oppia'' 234 1 100,
                     GetTimeline ''oppia'' ''oppia'' 234 2 100,
                     GetPulls ''oppia'' ''oppia'' 2 100,
                     PostCategories ''SD-13'' ''test-pending-review-notifier'',
                     PostDiscussions ''SD-13'' ''test-pending-review-notifier''
                       ''test_category_id_1'',
                     PostDeleteDiscussion ''test_discussion_id_1'']\<rparr>)"
proof -
  have "init_service (arg_token test_args) initial_world =
      (Inr (), initial_world\<lparr>token := Some ''githubTokenForApiRequest''\<rparr>)"
    by (simp add: init_service_def test_args_def)
  moreover have "arg_max_wait_hours test_args = Some 20"
    "arg_category test_args = Some ''test_category_name_1''"
    by (simp_all add: test_args_def)
  moreover have "check_required_args required_args = Inr ()"
    by (simp add: required_args_def)
  moreover have "generate_message missing_template_env ''reviewerName1''
      [object_123, object_234] TEMPLATE_PATH deleted_world =
      (Inl (BaseException
             ''Please add a template file at: .github/PENDING_REVIEW_NOTIFICATION_TEMPLATE.md''),
       deleted_world\<lparr>ticks := 6\<rparr>)"
    by (simp add: message_defs missing_template_env_def test_env_def test_now_def
        object_123_def object_234_def deleted_world_def listed_world_def)
  ultimately have "main missing_template_env test_args initial_world =
     Some (Inl (BaseException
             ''Please add a template file at: .github/PENDING_REVIEW_NOTIFICATION_TEMPLATE.md''),
           deleted_world\<lparr>ticks := 6\<rparr>)"
    by (simp add: main_def missing_template_listing missing_template_deletion test_overdue_def)
  then show ?thesis
    by (simp add: deleted_world_def listed_world_def deletion_trace_def missing_template_env_def)
qed

section \<open>Rendering a notification\<close>

lemma assigned_to_Cons:
  "assigned_to u (p # ps) =
     (case get_assignee p u of None \<Rightarrow> assigned_to u ps | Some a \<Rightarrow> (p, a) # assigned_to u ps)"
  by (simp add: assigned_to_def List.map_filter_def split: option.splits)

lemma rendered_lines_Nil: "rendered_lines env u t0 [] = []"
  by (simp add: rendered_lines_def assigned_to_def List.map_filter_def)

lemma rendered_lines_Cons:
  "rendered_lines env u t0 (p # ps) =
     (case get_assignee p u of
        None \<Rightarrow> rendered_lines env u t0 ps
      | Some a \<Rightarrow> rendered_line env t0 p a # rendered_lines env u (Suc t0) ps)"
  by (simp add: rendered_lines_def assigned_to_Cons split: option.splits)

lemma pr_list_messages_rendered:
  assumes "\<forall>p \<in> set prs. \<forall>a. get_assignee p u = Some a \<longrightarrow> assigned_on_timestamp a \<noteq> None"
  shows "pr_list_messages env u prs w =
           (Inr (rendered_lines env u (ticks w) prs),
            w\<lparr>ticks := ticks w + length (rendered_lines env u (ticks w) prs)\<rparr>)"
  using assms
proof (induction prs arbitrary: w)
  case Nil
  show ?case by (simp add: rendered_lines_Nil)
next
  case (Cons p ps)
  from Cons.prems have rest:
    "\<forall>p \<in> set ps. \<forall>a. get_assignee p u = Some a \<longrightarrow> assigned_on_timestamp a \<noteq> None"
    by simp
  show ?case
  proof (cases "get_assignee p u")
    case None
    with Cons.IH[OF rest, of w] show ?thesis by (simp add: rendered_lines_Cons)
  next
    case (Some a)
    with Cons.prems obtain ts where ts: "assigned_on_timestamp a = Some ts" by auto
    have tk: "ticks (tick w) = Suc (ticks w)" by (simp add: tick_def)
    have upd: "\<And>n. (tick w)\<lparr>ticks := n\<rparr> = w\<lparr>ticks := n\<rparr>" by (simp add: tick_def)
    from Cons.IH[OF rest, of "tick w"] Some ts show ?thesis
      by (simp add: rendered_lines_Cons get_waiting_time_def rendered_line_def tk upd)
  qed
qed

lemma str_join_snoc:
  "str_join sep (ls @ [l]) = concat (map (\<lambda>x. x @ sep) ls) @ l"
proof (induction ls)
  case Nil
  show ?case by simp
next
  case (Cons x xs)
  then show ?case by (cases xs) simp_all
qed

lemma strip_prefix_append: "strip_prefix p (p @ r) = Some r"
  by (induction p) simp_all

lemma strip_prefix_Some: "strip_prefix p s = Some r \<Longrightarrow> s = p @ r"
  by (induction p s rule: strip_prefix.induct) (auto split: if_splits)

lemma dropWhile_spaces:
  "ys = [] \<or> hd ys \<noteq> c \<Longrightarrow> dropWhile (\<lambda>x. x = c) (replicate i c @ ys) = ys"
proof (induction i)
  case 0
  then show ?case by (cases ys) auto
next
  case (Suc i)
  then show ?case by simp
qed

lemma takeWhile_spaces:
  "takeWhile (\<lambda>x. x = c) xs = replicate (length (takeWhile (\<lambda>x. x = c) xs)) c"
  by (induction xs) auto

lemma match_token_iff:
  assumes "name \<noteq> []" and "hd name \<noteq> CHR '' ''"
  shows "match_token name s = Some rest \<longleftrightarrow>
           (\<exists>i j. s = ''{{'' @ replicate i (CHR '' '') @ name @ replicate j (CHR '' '') @
                      ''}}'' @ rest)"
proof
  assume "match_token name s = Some rest"
  then obtain s1 s2 where
    s1: "strip_prefix ''{{'' s = Some s1"
    and s2: "strip_prefix name (dropWhile (\<lambda>c. c = CHR '' '') s1) = Some s2"
    and r: "strip_prefix ''}}'' (dropWhile (\<lambda>c. c = CHR '' '') s2) = Some rest"
    by (auto simp: match_token_def split: option.splits)
  let ?sp = "\<lambda>c. c = CHR '' ''"
  have a: "s = ''{{'' @ s1" using strip_prefix_Some[OF s1] .
  have b: "dropWhile ?sp s1 = name @ s2" using strip_prefix_Some[OF s2] .
  have c: "dropWhile ?sp s2 = ''}}'' @ rest" using strip_prefix_Some[OF r] .
  have "s1 = takeWhile ?sp s1 @ dropWhile ?sp s1" by simp
  then have s1': "s1 = replicate (length (takeWhile ?sp s1)) (CHR '' '') @ name @ s2"
    using b takeWhile_spaces[of "CHR '' ''" s1] by metis
  have "s2 = takeWhile ?sp s2 @ dropWhile ?sp s2" by simp
  then have s2': "s2 = replicate (length (takeWhile ?sp s2)) (CHR '' '') @ ''}}'' @ rest"
    using c takeWhile_spaces[of "CHR '' ''" s2] by metis
  have "s = ''{{'' @ replicate (length (takeWhile ?sp s1)) (CHR '' '') @ name @
          replicate (length (takeWhile ?sp s2)) (CHR '' '') @ ''}}'' @ rest"
    using a s1' s2' by metis
  then show "\<exists>i j. s = ''{{'' @ replicate i (CHR '' '') @ name @ replicate j (CHR '' '') @
                      ''}}'' @ rest"
    by blast
next
  assume "\<exists>i j. s = ''{{'' @ replicate i (CHR '' '') @ name @ replicate j (CHR '' '') @
                      ''}}'' @ rest"
  then obtain i j where
    s: "s = ''{{'' @ replicate i (CHR '' '') @ name @ replicate j (CHR '' '') @ ''}}'' @ rest"
    by blast
  let ?sp = "\<lambda>c. c = CHR '' ''"
  let ?t2 = "replicate j (CHR '' '') @ ''}}'' @ rest"
  let ?t1 = "replicate i (CHR '' '') @ name @ ?t2"
  have 1: "strip_prefix ''{{'' s = Some ?t1"
    unfolding s by (rule strip_prefix_append)
  have 2: "dropWhile ?sp ?t1 = name @ ?t2"
    by (rule dropWhile_spaces) (use assms in simp)
  have 3: "strip_prefix name (name @ ?t2) = Some ?t2" by (rule strip_prefix_append)
  have 4: "dropWhile ?sp ?t2 = ''}}'' @ rest"
    by (rule dropWhile_spaces) simp
  have 5: "strip_prefix ''}}'' (''}}'' @ rest) = Some rest" by (rule strip_prefix_append)
  show "match_token name s = Some rest"
    unfolding match_token_def 1 option.case 2 3 4 5 by (rule refl)
qed

lemma sub_all_no_token:
  "\<forall>k < length s. match_token name (drop k s) = None \<Longrightarrow> sub_all name repl s = s"
proof (induction s)
  case Nil
  show ?case by simp
next
  case (Cons c cs)
  from Cons.prems have here: "match_token name (c # cs) = None" by force
  have "\<forall>k < length cs. match_token name (drop k cs) = None"
  proof (intro allI impI)
    fix k assume "k < length cs"
    then have "Suc k < length (c # cs)" by simp
    from Cons.prems[rule_format, OF this] show "match_token name (drop k cs) = None" by simp
  qed
  from Cons.IH[OF this] here show ?case by simp
qed

lemma sub_all_first:
  assumes "\<forall>k < length pre. match_token name (drop k (pre @ s)) = None"
    and "match_token name s = Some rest"
  shows "sub_all name repl (pre @ s) = pre @ repl @ sub_all name repl rest"
  using assms(1)
proof (induction pre)
  case Nil
  from assms(2) have "s \<noteq> []" by (auto simp: match_token_def)
  then obtain c cs where "s = c # cs" by (cases s) auto
  with assms(2) show ?case by simp
next
  case (Cons c cs)
  from Cons.prems have here: "match_token name (c # cs @ s) = None" by force
  have "\<forall>k < length cs. match_token name (drop k (cs @ s)) = None"
  proof (intro allI impI)
    fix k assume "k < length cs"
    then have "Suc k < length (c # cs)" by simp
    from Cons.prems[rule_format, OF this] show "match_token name (drop k (cs @ s)) = None"
      by simp
  qed
  from Cons.IH[OF this] here show ?case by simp
qed

lemma re_sub_plain: "CHR 0x5C \<notin> set repl \<Longrightarrow> re_sub env name repl s = Inr (sub_all name repl s)"
  by (simp add: re_sub_def)

lemma test_lines:
  "rendered_lines test_env ''reviewerName1'' 4 [object_123, object_234] =
     [''- [#123](https://githuburl.pull/123) [Waiting for the last 22 hours]'',
      ''- [#234](https://githuburl.pull/234) [Waiting for the last 23 hours]'']"
  by (simp add: rendered_lines_Cons rendered_lines_Nil get_assignee_def rendered_line_def
      object_123_def object_234_def test_env_def test_now_def str_int_def)

text \<open>
  C10 (amended): \<open>generate_message\<close> when the template can be read, the assignee
  records it uses carry a timestamp and neither replacement text holds a backslash
  (which \<open>re.sub\<close> would process as an escape). It renders one line for each pull
  request on which the reviewer is an assignee, a markdown link \<open>[#number](url)\<close>
  followed by the waiting time at a clock reading made for this line while rendering, and
  joins the lines with single newlines, none behind the last. It then replaces the
  \<open>username\<close> tokens of the template by the username, and after that the \<open>pr_list\<close>
  tokens of the resulting text by the joined lines, so that a \<open>pr_list\<close> token
  brought in by the username is expanded too. A token is two opening braces, any number
  of space characters, the name, any number of space characters and two closing braces:
  only spaces are ignored, no other whitespace. One replacement pass scans from the
  left, puts the replacement text as it is in the place of the first token and goes on
  behind that token, without looking into the text it has put in; a text without a
  token stays as it is.
\<close>

theorem generate_message_renders:
  "(path_exists env tp \<and> read_file env tp = Inr template \<and>
    (\<forall>p \<in> set prs. \<forall>a. get_assignee p u = Some a \<longrightarrow> assigned_on_timestamp a \<noteq> None) \<and>
    CHR 0x5C \<notin> set u \<and>
    CHR 0x5C \<notin> set (str_join newline (rendered_lines env u (ticks w) prs)) \<longrightarrow>
    generate_message env u prs tp w =
      (Inr (sub_all ''pr_list'' (str_join newline (rendered_lines env u (ticks w) prs))
              (sub_all ''username'' u template)),
       w\<lparr>ticks := ticks w + length (rendered_lines env u (ticks w) prs)\<rparr>)) \<and>
   str_join newline (ls @ [l]) = concat (map (\<lambda>x. x @ newline) ls) @ l \<and>
   (name \<in> {''username'', ''pr_list''} \<longrightarrow>
      (match_token name s = Some rest \<longleftrightarrow>
         (\<exists>i j. s = ''{{'' @ replicate i (CHR '' '') @ name @ replicate j (CHR '' '') @
                    ''}}'' @ rest))) \<and>
   ((\<forall>k < length pre. match_token name (drop k (pre @ s)) = None) \<and>
    match_token name s = Some rest \<longrightarrow>
      sub_all name repl (pre @ s) = pre @ repl @ sub_all name repl rest) \<and>
   ((\<forall>k < length s. match_token name (drop k s) = None) \<longrightarrow> sub_all name repl s = s)"
proof -
  let ?ls = "rendered_lines env u (ticks w) prs"
  have 1: "generate_message env u prs tp w =
      (Inr (sub_all ''pr_list'' (str_join newline ?ls) (sub_all ''username'' u template)),
       w\<lparr>ticks := ticks w + length ?ls\<rparr>)"
    if "path_exists env tp" and "read_file env tp = Inr template"
      and "\<forall>p \<in> set prs. \<forall>a. get_assignee p u = Some a \<longrightarrow> assigned_on_timestamp a \<noteq> None"
      and "CHR 0x5C \<notin> set u" and "CHR 0x5C \<notin> set (str_join newline ?ls)"
    using that(1,2) pr_list_messages_rendered[OF that(3), of env w]
      re_sub_plain[OF that(4)] re_sub_plain[OF that(5)]
    by (simp add: generate_message_def)
  have 2: "str_join newline (ls @ [l]) = concat (map (\<lambda>x. x @ newline) ls) @ l"
    by (rule str_join_snoc)
  have 3: "match_token name s = Some rest \<longleftrightarrow>
         (\<exists>i j. s = ''{{'' @ replicate i (CHR '' '') @ name @ replicate j (CHR '' '') @
                    ''}}'' @ rest)"
    if "name \<in> {''username'', ''pr_list''}"
  proof -
    from that have "name \<noteq> []" "hd name \<noteq> CHR '' ''" by auto
    then show ?thesis by (rule match_token_iff)
  qed
  have 4: "sub_all name repl (pre @ s) = pre @ repl @ sub_all name repl rest"
    if "\<forall>k < length pre. match_token name (drop k (pre @ s)) = None"
      and "match_token name s = Some rest"
    using that by (rule sub_all_first)
  have 5: "sub_all name repl s = s" if "\<forall>k < length s. match_token name (drop k s) = None"
    using that by (rule sub_all_no_token)
  from 1 2 3 4 5 show ?thesis by blast
qed

theorem generate_message_renders_witness:
  "generate_message test_env ''reviewerName1'' [object_123, object_234] TEMPLATE_PATH
     deleted_world = (Inr test_body_1, deleted_world\<lparr>ticks := 6\<rparr>) \<and>
   match_token ''username'' ''{{ username  }}!'' = Some ''!'' \<and>
   sub_all ''username'' ''reviewerName1'' ''Hi {{ username  }}!'' = ''Hi reviewerName1!'' \<and>
   sub_all ''username'' ''reviewerName1'' ''{ {username}}'' = ''{ {username}}''"
proof -
  note inst = generate_message_renders
    [where env = test_env and tp = TEMPLATE_PATH and template = test_template
       and prs = "[object_123, object_234]" and u = "''reviewerName1''" and w = deleted_world
       and name = "''username''" and s = "''{{ username  }}!''" and rest = "''!''"
       and pre = "''Hi ''" and repl = "''reviewerName1''"]
  note inst2 = generate_message_renders
    [where name = "''username''" and s = "''{ {username}}''" and repl = "''reviewerName1''"]
  have tk: "ticks deleted_world = 4" by (simp add: deleted_world_def listed_world_def)
  have h1: "path_exists test_env TEMPLATE_PATH" by (simp add: test_env_def)
  have h2: "read_file test_env TEMPLATE_PATH = Inr test_template" by (simp add: test_env_def)
  have h3: "\<forall>p \<in> set [object_123, object_234]. \<forall>a.
      get_assignee p ''reviewerName1'' = Some a \<longrightarrow> assigned_on_timestamp a \<noteq> None"
    by (auto simp: get_assignee_def object_123_def object_234_def)
  have h4: "CHR 0x5C \<notin> set ''reviewerName1''" by simp
  have h5: "CHR 0x5C \<notin> set (str_join newline
      (rendered_lines test_env ''reviewerName1'' (ticks deleted_world) [object_123, object_234]))"
    by (simp add: tk test_lines newline_def)
  from inst h1 h2 h3 h4 h5
  have "generate_message test_env ''reviewerName1'' [object_123, object_234] TEMPLATE_PATH
      deleted_world =
      (Inr (sub_all ''pr_list'' (str_join newline
              (rendered_lines test_env ''reviewerName1'' (ticks deleted_world)
                 [object_123, object_234]))
              (sub_all ''username'' ''reviewerName1'' test_template)),
       deleted_world\<lparr>ticks := ticks deleted_world +
         length (rendered_lines test_env ''reviewerName1'' (ticks deleted_world)
                   [object_123, object_234])\<rparr>)"
    by blast
  then have a: "generate_message test_env ''reviewerName1'' [object_123, object_234]
      TEMPLATE_PATH deleted_world = (Inr test_body_1, deleted_world\<lparr>ticks := 6\<rparr>)"
    by (simp add: tk test_lines test_template_def newline_def match_token_def test_body_1_def)
  have "''{{ username  }}!'' =
      ''{{'' @ replicate 1 (CHR '' '') @ ''username'' @ replicate 2 (CHR '' '') @ ''}}'' @ ''!''"
    by (simp add: numeral_2_eq_2)
  then have "\<exists>i j. ''{{ username  }}!'' =
      ''{{'' @ replicate i (CHR '' '') @ ''username'' @ replicate j (CHR '' '') @ ''}}'' @ ''!''"
    by blast
  with inst have b: "match_token ''username'' ''{{ username  }}!'' = Some ''!''"
    by blast
  have "\<forall>k < length ''Hi ''. match_token ''username'' (drop k (''Hi '' @ ''{{ username  }}!'')) = None"
    by (simp add: less_Suc_eq match_token_def)
  with inst b have "sub_all ''username'' ''reviewerName1'' (''Hi '' @ ''{{ username  }}!'') =
      ''Hi '' @ ''reviewerName1'' @ sub_all ''username'' ''reviewerName1'' ''!''"
    by blast
  then have c: "sub_all ''username'' ''reviewerName1'' ''Hi {{ username  }}!'' = ''Hi reviewerName1!''"
    by (simp add: match_token_def)
  have "\<forall>k < length ''{ {username}}''. match_token ''username'' (drop k ''{ {username}}'') = None"
    by (simp add: less_Suc_eq match_token_def)
  with inst2 have d: "sub_all ''username'' ''reviewerName1'' ''{ {username}}'' = ''{ {username}}''"
    by blast
  from a b c d show ?thesis by blast
qed

theorem generate_message_counterexample:
  "generate_message (template_env (''Hi {{'' @ [CHR 0x09] @ ''username}}'')) ''reviewerName1''
     [object_123] TEMPLATE_PATH test_world =
     (Inr (''Hi {{'' @ [CHR 0x09] @ ''username}}''), test_world\<lparr>ticks := 1\<rparr>) \<and>
   generate_message (template_env ''Hi {{username}}'') ''{{pr_list}}''
     [braces_object] TEMPLATE_PATH test_world =
     (Inr ''Hi - [#123](https://githuburl.pull/123) [Waiting for the last 22 hours]'',
      test_world\<lparr>ticks := 1\<rparr>)"
  by (simp add: message_defs template_env_def test_env_def test_now_def test_world_def
      object_123_def braces_object_def)

end
